theory Spec2Isabelle
  imports Main "HOL-Library.Word" "HOL-Library.Multiset"
begin

section \<open>Errors\<close>

text \<open>
  The stable enumeration \<open>base.ErrorCode\<close>.  A reader builds a coded error with
  \<open>errors.New(base.ErrorCode_X.String())\<close>: its message is the name of the code.
\<close>

datatype ErrorCode =
    ERROR_CODE_EXECUTION
  | ERROR_CODE_SQL_BUILDER
  | ERROR_CODE_INVALID_CONTINUOUS_TOKEN
  | ERROR_CODE_TYPE_CONVERSATION
  | ERROR_CODE_DEPTH_EXCEEDED
  | ERROR_CODE_NOT_FOUND
  | ERROR_CODE_UNDEFINED_RELATION_REFERENCE
  | ERROR_CODE_NOT_SUPPORTED_RELATION_WALK
  | ERROR_CODE_RELATION_REFERENCE_MUST_HAVE_ONE_ENTITY_REFERENCE
  | ERROR_CODE_RELATION_REFERENCE_NOT_FOUND_IN_ENTITY_REFERENCES
  | ERROR_CODE_DUPLICATE_NAME

text \<open>
  A Go \<open>error\<close> value: a coded error, the sentinel \<open>sql.ErrNoRows\<close>, or an error made
  by a collaborator (the SQL driver, a token decoder, the stream) that carries that
  collaborator's own text.
\<close>

datatype error =
    Code ErrorCode
  | ErrNoRows
  | Internal string

fun is_stable_code :: "error \<Rightarrow> bool" where
  "is_stable_code (Code c) = True"
| "is_stable_code ErrNoRows = False"
| "is_stable_code (Internal msg) = False"

section \<open>Tuples, filters, tokens\<close>

type_synonym uint64 = "64 word"
type_synonym uint32 = "32 word"

text \<open>\<open>repositories.RelationTuple\<close>: a row of the relation-tuples table.\<close>

record RelationTuple =
  ID :: uint64
  TenantID :: string
  EntityType :: string
  EntityID :: string
  Relation :: string
  SubjectType :: string
  SubjectID :: string
  SubjectRelation :: string

text \<open>\<open>base.Tuple\<close>, flattened: entity, relation, subject.\<close>

record Tuple =
  tuple_entity_type :: string
  tuple_entity_id :: string
  tuple_relation :: string
  tuple_subject_type :: string
  tuple_subject_id :: string
  tuple_subject_relation :: string

definition ToTuple :: "RelationTuple \<Rightarrow> Tuple" where
  "ToTuple rt =
     \<lparr> tuple_entity_type = EntityType rt, tuple_entity_id = EntityID rt,
       tuple_relation = Relation rt, tuple_subject_type = SubjectType rt,
       tuple_subject_id = SubjectID rt, tuple_subject_relation = SubjectRelation rt \<rparr>"

record TupleFilter =
  filter_entity_type :: string
  filter_entity_ids :: "string list"
  filter_relation :: string
  filter_subject_type :: string
  filter_subject_ids :: "string list"
  filter_subject_relation :: string

text \<open>
  \<open>token.SnapToken\<close>: the relational back end's token holds a transaction id
  (\<open>snapshot.Token{Value: types.XID8{Uint: ...}}\<close>), the in-memory back end's a
  wall-clock time (\<open>snapshot.NewToken(time.Now())\<close>, here in nanoseconds).
\<close>

datatype SnapToken = XID8_Token uint64 | Time_Token nat

text \<open>
  \<open>database.ContinuousToken\<close> as the readers build it: \<open>utils.NewContinuousToken(v)\<close> or
  \<open>utils.NewNoopContinuousToken()\<close>.  The readers return its encoding; the model returns
  the token that is encoded.
\<close>

datatype ContinuousToken = NewContinuousToken string | NewNoopContinuousToken

text \<open>
  \<open>database.Pagination\<close>: the page size is a \<open>uint32\<close>, the token the encoded
  continuous token of the previous page (empty on the first page).
\<close>

record Pagination =
  PageSize :: uint32
  Token :: string

section \<open>strconv: decimal unsigned integers\<close>

definition is_digit :: "char \<Rightarrow> bool" where
  "is_digit c = (48 \<le> (of_char c :: nat) \<and> (of_char c :: nat) \<le> 57)"

definition digit_val :: "char \<Rightarrow> nat" where
  "digit_val c = of_char c - 48"

definition digit_char :: "nat \<Rightarrow> char" where
  "digit_char d = ''0123456789'' ! d"

definition digits_val :: "string \<Rightarrow> nat" where
  "digits_val s = foldl (\<lambda>a c. 10 * a + digit_val c) 0 s"

text \<open>
  \<open>strconv.ParseUint(s, 10, 64)\<close>: a syntax error on the empty string and on any byte
  that is not a decimal digit, a range error from \<open>2 ^ 64\<close> on; \<open>None\<close> is the error.
\<close>

definition ParseUint :: "string \<Rightarrow> uint64 option" where
  "ParseUint s =
     (if s = [] \<or> \<not> list_all is_digit s then None
      else if digits_val s < 2 ^ 64 then Some (of_nat (digits_val s))
      else None)"

text \<open>\<open>strconv.FormatUint(v, 10)\<close>.\<close>

fun dec :: "nat \<Rightarrow> string" where
  "dec n = (if n < 10 then [digit_char n] else dec (n div 10) @ [digit_char (n mod 10)])"

declare dec.simps [simp del]

definition FormatUint :: "uint64 \<Rightarrow> string" where
  "FormatUint v = dec (unat v)"

section \<open>The relational reader\<close>

text \<open>
  A row of the relational table: the tuple's columns and the transaction that committed
  the row.
\<close>

record Row =
  created_tx :: uint64
  row_tuple :: RelationTuple

text \<open>
  The database as the reader sees it: the two tables, and what each fallible call to the
  driver or the query builder answers (\<open>None\<close>: it succeeds).  \<open>where_filter\<close> is the
  row predicate of the WHERE clauses that \<open>utils.FilterQueryForSelectBuilder\<close> adds for a
  filter.
\<close>

record Postgres =
  RelationTuplesTable :: "Row list"
  TransactionsTable :: "(string \<times> uint64) list"
  where_filter :: "TupleFilter \<Rightarrow> RelationTuple \<Rightarrow> bool"
  BeginTx_err :: "error option"
  ToSql_err :: "error option"
  Query_err :: "error option"
  Scan_err :: "RelationTuple \<Rightarrow> error option"
  Scan_xid_err :: "uint64 \<Rightarrow> error option"
  rows_Err :: "error option"
  Commit_err :: "error option"

text \<open>
  Modelled from the spec: \<open>utils.SnapshotQuery\<close> (internal/repositories/postgres/utils is
  not among the sources), the clause that restricts a query to the rows visible under a
  transaction id: "tuples are visible under snapshot S iff they were committed at or
  before S".
\<close>

definition SnapshotQuery :: "uint64 \<Rightarrow> Row \<Rightarrow> bool" where
  "SnapshotQuery s r = (created_tx r \<le> s)"

text \<open>
  \<open>rows.Next\<close>/\<open>rows.Scan\<close> over the result rows: the loop stops at the first row whose
  scan fails and returns that error as it is.
\<close>

fun scan_rows :: "(RelationTuple \<Rightarrow> error option) \<Rightarrow> RelationTuple list \<Rightarrow> error + RelationTuple list" where
  "scan_rows sc [] = Inr []"
| "scan_rows sc (r # rs) =
     (case sc r of
        Some err \<Rightarrow> Inl err
      | None \<Rightarrow> (case scan_rows sc rs of Inl err \<Rightarrow> Inl err | Inr ts \<Rightarrow> Inr (r # ts)))"

text \<open>
  HeadSnapshot, relational: \<open>SELECT id FROM transactions WHERE tenant_id = ? ORDER BY id
  DESC LIMIT 1\<close>, then \<open>row.Scan\<close>, which answers the query's own error, \<open>sql.ErrNoRows\<close>
  on an empty result, or the scan's error.
\<close>

definition head_rows :: "Postgres \<Rightarrow> string \<Rightarrow> uint64 list" where
  "head_rows db tenantID =
     take 1 (rev (sort (map snd (filter (\<lambda>t. fst t = tenantID) (TransactionsTable db)))))"

definition row_Scan :: "Postgres \<Rightarrow> uint64 list \<Rightarrow> error + uint64" where
  "row_Scan db rows =
     (case Query_err db of
        Some err \<Rightarrow> Inl err
      | None \<Rightarrow>
          (case rows of
             [] \<Rightarrow> Inl ErrNoRows
           | xid # _ \<Rightarrow> (case Scan_xid_err db xid of Some err \<Rightarrow> Inl err | None \<Rightarrow> Inr xid)))"

definition pg_HeadSnapshot :: "Postgres \<Rightarrow> string \<Rightarrow> error + SnapToken" where
  "pg_HeadSnapshot db tenantID =
     (case ToSql_err db of
        Some _ \<Rightarrow> Inl (Code ERROR_CODE_SQL_BUILDER)
      | None \<Rightarrow>
          (case row_Scan db (head_rows db tenantID) of
             Inl err \<Rightarrow> (if err = ErrNoRows then Inr (XID8_Token 0) else Inl err)
           | Inr xid \<Rightarrow> Inr (XID8_Token xid)))"

text \<open>
  The rows a SELECT of the reader ranges over: those of the tenant that satisfy the
  filter's clauses and the snapshot clause.
\<close>

definition pg_select :: "Postgres \<Rightarrow> string \<Rightarrow> TupleFilter \<Rightarrow> uint64 \<Rightarrow> Row list" where
  "pg_select db tenantID f s =
     filter (\<lambda>r. TenantID (row_tuple r) = tenantID \<and> where_filter db f (row_tuple r) \<and> SnapshotQuery s r)
       (RelationTuplesTable db)"

text \<open>
  QueryRelationships, relational.  \<open>Decode\<close> is \<open>snapshot.EncodedToken.Decode\<close> followed by
  the read of \<open>Value.Uint\<close>.  The calls fail in the source's order; the builder's and the
  query's errors are replaced by a code, the others are returned as they are.
\<close>

definition pg_QueryRelationships ::
  "(string \<Rightarrow> error + uint64) \<Rightarrow> Postgres \<Rightarrow> string \<Rightarrow> TupleFilter \<Rightarrow> string \<Rightarrow> error + Tuple list" where
  "pg_QueryRelationships Decode db tenantID f snap =
     (case Decode snap of
        Inl err \<Rightarrow> Inl err
      | Inr st \<Rightarrow>
     (case BeginTx_err db of
        Some err \<Rightarrow> Inl err
      | None \<Rightarrow>
     (case ToSql_err db of
        Some _ \<Rightarrow> Inl (Code ERROR_CODE_SQL_BUILDER)
      | None \<Rightarrow>
     (case Query_err db of
        Some _ \<Rightarrow> Inl (Code ERROR_CODE_EXECUTION)
      | None \<Rightarrow>
     (case scan_rows (Scan_err db) (map row_tuple (pg_select db tenantID f st)) of
        Inl err \<Rightarrow> Inl err
      | Inr rts \<Rightarrow>
     (case rows_Err db of
        Some err \<Rightarrow> Inl err
      | None \<Rightarrow>
     (case Commit_err db of
        Some err \<Rightarrow> Inl err
      | None \<Rightarrow> Inr (map ToTuple rts))))))))"

text \<open>
  The lower bound of a page: none for the empty token; otherwise the token is decoded
  (\<open>ctDecode\<close> is \<open>utils.EncodedContinuousToken.Decode\<close> followed by the read of \<open>Value\<close>)
  and parsed as a decimal \<open>uint64\<close>.
\<close>

definition page_bound :: "(string \<Rightarrow> error + string) \<Rightarrow> Pagination \<Rightarrow> error + uint64 option" where
  "page_bound ctDecode pagination =
     (if Token pagination \<noteq> [] then
        (case ctDecode (Token pagination) of
           Inl err \<Rightarrow> Inl err
         | Inr t \<Rightarrow>
             (case ParseUint t of
                None \<Rightarrow> Inl (Code ERROR_CODE_INVALID_CONTINUOUS_TOKEN)
              | Some v \<Rightarrow> Inr (Some v)))
      else Inr None)"

text \<open>
  The rows that match a page query, in the order of \<open>ORDER BY id\<close>: the selected rows,
  \<open>id >= v\<close> when there is a bound.
\<close>

definition pg_matching :: "Postgres \<Rightarrow> string \<Rightarrow> TupleFilter \<Rightarrow> uint64 \<Rightarrow> uint64 option \<Rightarrow> RelationTuple list" where
  "pg_matching db tenantID f st bound =
     sort_key ID
       (filter (\<lambda>rt. case bound of None \<Rightarrow> True | Some v \<Rightarrow> v \<le> ID rt)
          (map row_tuple (pg_select db tenantID f st)))"

text \<open>The page query: \<open>LIMIT PageSize + 1\<close>, the sum taken in \<open>uint32\<close>.\<close>

definition pg_page_rows :: "Postgres \<Rightarrow> string \<Rightarrow> TupleFilter \<Rightarrow> uint64 \<Rightarrow> uint64 option \<Rightarrow> uint32 \<Rightarrow> RelationTuple list" where
  "pg_page_rows db tenantID f st bound n = take (unat (n + 1)) (pg_matching db tenantID f st bound)"

definition lastID_of :: "RelationTuple list \<Rightarrow> uint64" where
  "lastID_of rts = (if rts = [] then 0 else ID (last rts))"

definition pg_ReadRelationships ::
  "(string \<Rightarrow> error + uint64) \<Rightarrow> (string \<Rightarrow> error + string) \<Rightarrow> Postgres \<Rightarrow> string \<Rightarrow> TupleFilter \<Rightarrow> string
     \<Rightarrow> Pagination \<Rightarrow> error + (Tuple list \<times> ContinuousToken)" where
  "pg_ReadRelationships Decode ctDecode db tenantID f snap pagination =
     (case Decode snap of
        Inl err \<Rightarrow> Inl err
      | Inr st \<Rightarrow>
     (case BeginTx_err db of
        Some err \<Rightarrow> Inl err
      | None \<Rightarrow>
     (case page_bound ctDecode pagination of
        Inl err \<Rightarrow> Inl err
      | Inr bound \<Rightarrow>
     (case ToSql_err db of
        Some _ \<Rightarrow> Inl (Code ERROR_CODE_SQL_BUILDER)
      | None \<Rightarrow>
     (case Query_err db of
        Some _ \<Rightarrow> Inl (Code ERROR_CODE_EXECUTION)
      | None \<Rightarrow>
     (case scan_rows (Scan_err db) (pg_page_rows db tenantID f st bound (PageSize pagination)) of
        Inl err \<Rightarrow> Inl err
      | Inr rts \<Rightarrow>
     (case rows_Err db of
        Some err \<Rightarrow> Inl err
      | None \<Rightarrow>
     (case Commit_err db of
        Some err \<Rightarrow> Inl err
      | None \<Rightarrow>
          (if length rts > unat (PageSize pagination)
           then Inr (take (unat (PageSize pagination)) (map ToTuple rts),
                     NewContinuousToken (FormatUint (lastID_of rts)))
           else Inr (map ToTuple rts, NewNoopContinuousToken))))))))))"

text \<open>
  GetUniqueEntityIDsByEntityType, relational: \<open>SELECT DISTINCT entity_id\<close> over the rows of
  the tenant and entity type that the snapshot clause keeps.
\<close>

fun scan_ids :: "(string \<Rightarrow> error option) \<Rightarrow> string list \<Rightarrow> error + string list" where
  "scan_ids sc [] = Inr []"
| "scan_ids sc (i # is) =
     (case sc i of
        Some err \<Rightarrow> Inl err
      | None \<Rightarrow> (case scan_ids sc is of Inl err \<Rightarrow> Inl err | Inr js \<Rightarrow> Inr (i # js)))"

definition pg_distinct_ids :: "Postgres \<Rightarrow> string \<Rightarrow> string \<Rightarrow> uint64 \<Rightarrow> string list" where
  "pg_distinct_ids db tenantID typ s =
     remdups (map (\<lambda>r. EntityID (row_tuple r))
       (filter (\<lambda>r. EntityType (row_tuple r) = typ \<and> TenantID (row_tuple r) = tenantID \<and> SnapshotQuery s r)
          (RelationTuplesTable db)))"

definition pg_GetUniqueEntityIDsByEntityType ::
  "(string \<Rightarrow> error + uint64) \<Rightarrow> (string \<Rightarrow> error option) \<Rightarrow> Postgres \<Rightarrow> string \<Rightarrow> string \<Rightarrow> string
     \<Rightarrow> error + string list" where
  "pg_GetUniqueEntityIDsByEntityType Decode scan_id db tenantID typ snap =
     (case Decode snap of
        Inl err \<Rightarrow> Inl err
      | Inr st \<Rightarrow>
     (case BeginTx_err db of
        Some err \<Rightarrow> Inl err
      | None \<Rightarrow>
     (case ToSql_err db of
        Some _ \<Rightarrow> Inl (Code ERROR_CODE_SQL_BUILDER)
      | None \<Rightarrow>
     (case Query_err db of
        Some _ \<Rightarrow> Inl (Code ERROR_CODE_EXECUTION)
      | None \<Rightarrow>
     (case scan_ids scan_id (pg_distinct_ids db tenantID typ st) of
        Inl err \<Rightarrow> Inl err
      | Inr ids \<Rightarrow>
     (case rows_Err db of
        Some err \<Rightarrow> Inl err
      | None \<Rightarrow>
     (case Commit_err db of
        Some err \<Rightarrow> Inl err
      | None \<Rightarrow> Inr ids)))))))"

section \<open>The in-memory reader\<close>

text \<open>
  The objects of the in-memory table are \<open>interface{}\<close> values; the reader asserts each to
  be a \<open>repositories.RelationTuple\<close>.
\<close>

datatype obj = Obj_RelationTuple RelationTuple | Obj_other

text \<open>
  The in-memory database as the reader sees it.  \<open>Table\<close> holds the stored objects, each
  with the wall-clock time at which the write that inserted it committed; the store keeps
  no such time, the model carries it to state what a snapshot would have to hide.
  \<open>index_Get\<close> and \<open>index_LowerBound\<close> say which objects \<open>txn.Get\<close> and \<open>txn.LowerBound\<close>
  yield on the index and arguments that \<open>utils.GetIndexNameAndArgsByFilters\<close> derives
  from the tenant and the filter, \<open>entity_type_index\<close> which ones \<open>txn.Get\<close> yields on
  "entity-type-index"; \<open>FilterQuery\<close> is \<open>utils.FilterQuery\<close> (true: the object is
  filtered out); \<open>txn_err\<close> is the error of the lookup, if any.
\<close>

record Memory =
  Table :: "(nat \<times> obj) list"
  index_Get :: "string \<Rightarrow> TupleFilter \<Rightarrow> obj \<Rightarrow> bool"
  index_LowerBound :: "string \<Rightarrow> TupleFilter \<Rightarrow> obj \<Rightarrow> bool"
  entity_type_index :: "string \<Rightarrow> string \<Rightarrow> obj \<Rightarrow> bool"
  FilterQuery :: "TupleFilter \<Rightarrow> obj \<Rightarrow> bool"
  txn_err :: "error option"

text \<open>The type assertions of a read loop: the first object of another type ends it.\<close>

fun assert_tuples :: "obj list \<Rightarrow> error + RelationTuple list" where
  "assert_tuples [] = Inr []"
| "assert_tuples (Obj_RelationTuple t # os) =
     (case assert_tuples os of Inl err \<Rightarrow> Inl err | Inr ts \<Rightarrow> Inr (t # ts))"
| "assert_tuples (Obj_other # os) = Inl (Code ERROR_CODE_TYPE_CONVERSATION)"

definition fit_Get :: "Memory \<Rightarrow> string \<Rightarrow> TupleFilter \<Rightarrow> obj list" where
  "fit_Get db tenantID f =
     filter (\<lambda>ob. \<not> FilterQuery db f ob) (filter (index_Get db tenantID f) (map snd (Table db)))"

definition fit_LowerBound :: "Memory \<Rightarrow> string \<Rightarrow> TupleFilter \<Rightarrow> obj list" where
  "fit_LowerBound db tenantID f =
     filter (\<lambda>ob. \<not> FilterQuery db f ob) (filter (index_LowerBound db tenantID f) (map snd (Table db)))"

text \<open>QueryRelationships, in memory: the snapshot argument is the blank identifier.\<close>

definition mem_QueryRelationships :: "Memory \<Rightarrow> string \<Rightarrow> TupleFilter \<Rightarrow> string \<Rightarrow> error + Tuple list" where
  "mem_QueryRelationships db tenantID f snap =
     (case txn_err db of
        Some _ \<Rightarrow> Inl (Code ERROR_CODE_EXECUTION)
      | None \<Rightarrow>
          (case assert_tuples (fit_Get db tenantID f) of
             Inl err \<Rightarrow> Inl err
           | Inr ts \<Rightarrow> Inr (map ToTuple ts)))"

text \<open>
  The paging loop of the in-memory ReadRelationships over the tuples sorted by id:
  a tuple at or above the bound is appended, and the loop returns as soon as the page
  holds more than \<open>n\<close> tuples, with the first \<open>n\<close> and the id of the tuple just appended.
\<close>

fun page_loop :: "nat \<Rightarrow> uint64 \<Rightarrow> Tuple list \<Rightarrow> RelationTuple list \<Rightarrow> Tuple list \<times> ContinuousToken" where
  "page_loop n lowerBound tuples [] = (tuples, NewNoopContinuousToken)"
| "page_loop n lowerBound tuples (t # ts) =
     (if lowerBound \<le> ID t then
        (if length (tuples @ [ToTuple t]) > n
         then (take n (tuples @ [ToTuple t]), NewContinuousToken (FormatUint (ID t)))
         else page_loop n lowerBound (tuples @ [ToTuple t]) ts)
      else page_loop n lowerBound tuples ts)"

definition mem_lowerBound :: "(string \<Rightarrow> error + string) \<Rightarrow> Pagination \<Rightarrow> error + uint64" where
  "mem_lowerBound ctDecode pagination =
     (if Token pagination \<noteq> [] then
        (case ctDecode (Token pagination) of
           Inl err \<Rightarrow> Inl err
         | Inr t \<Rightarrow>
             (case ParseUint t of
                None \<Rightarrow> Inl (Code ERROR_CODE_INVALID_CONTINUOUS_TOKEN)
              | Some v \<Rightarrow> Inr v))
      else Inr 0)"

definition mem_ReadRelationships ::
  "(string \<Rightarrow> error + string) \<Rightarrow> Memory \<Rightarrow> string \<Rightarrow> TupleFilter \<Rightarrow> string \<Rightarrow> Pagination
     \<Rightarrow> error + (Tuple list \<times> ContinuousToken)" where
  "mem_ReadRelationships ctDecode db tenantID f snap pagination =
     (case mem_lowerBound ctDecode pagination of
        Inl err \<Rightarrow> Inl err
      | Inr lowerBound \<Rightarrow>
     (case txn_err db of
        Some _ \<Rightarrow> Inl (Code ERROR_CODE_EXECUTION)
      | None \<Rightarrow>
     (case assert_tuples (fit_LowerBound db tenantID f) of
        Inl err \<Rightarrow> Inl err
      | Inr tup \<Rightarrow>
          Inr (page_loop (unat (PageSize pagination)) lowerBound [] (sort_key ID tup)))))"

text \<open>\<open>removeDuplicate\<close>: the first occurrence of each item, in order.\<close>

fun removeDuplicate_loop :: "('a \<rightharpoonup> bool) \<Rightarrow> 'a list \<Rightarrow> 'a list \<Rightarrow> 'a list" where
  "removeDuplicate_loop allKeys list [] = list"
| "removeDuplicate_loop allKeys list (item # sliceList) =
     (case allKeys item of
        None \<Rightarrow> removeDuplicate_loop (allKeys(item \<mapsto> True)) (list @ [item]) sliceList
      | Some _ \<Rightarrow> removeDuplicate_loop allKeys list sliceList)"

definition removeDuplicate :: "'a list \<Rightarrow> 'a list" where
  "removeDuplicate sliceList = removeDuplicate_loop Map.empty [] sliceList"

definition mem_GetUniqueEntityIDsByEntityType :: "Memory \<Rightarrow> string \<Rightarrow> string \<Rightarrow> string \<Rightarrow> error + string list" where
  "mem_GetUniqueEntityIDsByEntityType db tenantID typ snap =
     (case txn_err db of
        Some _ \<Rightarrow> Inl (Code ERROR_CODE_EXECUTION)
      | None \<Rightarrow>
          (case assert_tuples (filter (entity_type_index db tenantID typ) (map snd (Table db))) of
             Inl err \<Rightarrow> Inl err
           | Inr ts \<Rightarrow> Inr (removeDuplicate (map EntityID ts))))"

text \<open>HeadSnapshot, in memory: the current time, whatever the tenant.\<close>

definition mem_HeadSnapshot :: "nat \<Rightarrow> string \<Rightarrow> error + SnapToken" where
  "mem_HeadSnapshot now tenantID = Inr (Time_Token now)"

section \<open>Pages\<close>

text \<open>
  What a page of size \<open>n\<close> over the sequence \<open>M\<close> of matching rows is, in the words of the
  storage contract: the first \<open>n\<close> rows, and a continuous token exactly when a row is
  left, holding the decimal id of the first row left.  The readers are compared with it.
\<close>

definition page :: "nat \<Rightarrow> RelationTuple list \<Rightarrow> Tuple list \<times> ContinuousToken" where
  "page n M =
     (if length M > n
      then (map ToTuple (take n M), NewContinuousToken (FormatUint (ID (M ! n))))
      else (map ToTuple M, NewNoopContinuousToken))"

text \<open>
  The matching rows of the in-memory reader: the tuples the filter iterator yielded,
  sorted by id, at or above the lower bound.
\<close>

definition mem_matching :: "RelationTuple list \<Rightarrow> uint64 \<Rightarrow> RelationTuple list" where
  "mem_matching tup lowerBound = filter (\<lambda>t. lowerBound \<le> ID t) (sort_key ID tup)"

section \<open>Concrete stores used to exercise the theorems\<close>

definition fresh_db :: Postgres where
  "fresh_db =
     \<lparr> RelationTuplesTable = [], TransactionsTable = [(''acme'', 7)],
       where_filter = (\<lambda>f rt. True), BeginTx_err = None, ToSql_err = None, Query_err = None,
       Scan_err = (\<lambda>rt. None), Scan_xid_err = (\<lambda>x. None), rows_Err = None, Commit_err = None \<rparr>"

definition rt_of :: "uint64 \<Rightarrow> string \<Rightarrow> RelationTuple" where
  "rt_of i subject =
     \<lparr> ID = i, TenantID = ''acme'', EntityType = ''doc'', EntityID = ''1'', Relation = ''owner'',
       SubjectType = ''user'', SubjectID = subject, SubjectRelation = [] \<rparr>"

definition any_filter :: TupleFilter where
  "any_filter =
     \<lparr> filter_entity_type = [], filter_entity_ids = [], filter_relation = [],
       filter_subject_type = [], filter_subject_ids = [], filter_subject_relation = [] \<rparr>"

text \<open>Three tuples of one tenant, stored out of id order, in each back end.\<close>

definition three_mem :: Memory where
  "three_mem =
     \<lparr> Table = [(3, Obj_RelationTuple (rt_of 30 ''c'')), (1, Obj_RelationTuple (rt_of 10 ''a'')),
                (2, Obj_RelationTuple (rt_of 20 ''b''))],
       index_Get = (\<lambda>tenantID f ob. True), index_LowerBound = (\<lambda>tenantID f ob. True),
       entity_type_index = (\<lambda>tenantID typ ob. True), FilterQuery = (\<lambda>f ob. False),
       txn_err = None \<rparr>"

definition three_db :: Postgres where
  "three_db =
     \<lparr> RelationTuplesTable =
         [\<lparr> created_tx = 3, row_tuple = rt_of 30 ''c'' \<rparr>, \<lparr> created_tx = 1, row_tuple = rt_of 10 ''a'' \<rparr>,
          \<lparr> created_tx = 2, row_tuple = rt_of 20 ''b'' \<rparr>],
       TransactionsTable = [(''acme'', 1), (''acme'', 2), (''acme'', 3)],
       where_filter = (\<lambda>f rt. True), BeginTx_err = None, ToSql_err = None, Query_err = None,
       Scan_err = (\<lambda>rt. None), Scan_xid_err = (\<lambda>x. None), rows_Err = None, Commit_err = None \<rparr>"

text \<open>
  Stand-ins for the two token decoders, which are not among the sources: a snapshot token
  is taken to be the decimal transaction id, a continuous token its own value, and a
  token with the byte \<open>!\<close> does not decode.
\<close>

definition snap_Decode :: "string \<Rightarrow> error + uint64" where
  "snap_Decode snap =
     (case ParseUint snap of Some v \<Rightarrow> Inr v | None \<Rightarrow> Inl (Internal ''illegal base64 data''))"

definition ct_Decode :: "string \<Rightarrow> error + string" where
  "ct_Decode t =
     (if list_all (\<lambda>c. c \<noteq> CHR ''!'') t then Inr t else Inl (Internal ''illegal base64 data''))"

text \<open>
  A stand-in for \<open>SnapToken.Encode().String()\<close>, the inverse of \<open>snap_Decode\<close>: the decimal
  transaction id or time.
\<close>

fun snap_Encode :: "SnapToken \<Rightarrow> string" where
  "snap_Encode (XID8_Token x) = FormatUint x"
| "snap_Encode (Time_Token t) = dec t"

definition bad_page :: Pagination where
  "bad_page = \<lparr> PageSize = 10, Token = ''abc'' \<rparr>"

definition commit_fails_db :: Postgres where
  "commit_fails_db = three_db \<lparr> Commit_err := Some (Internal ''driver: bad connection'') \<rparr>"

definition scan_fails_db :: Postgres where
  "scan_fails_db =
     three_db \<lparr> Scan_err := (\<lambda>rt. Some (Internal ''sql: Scan error on column index 0'')) \<rparr>"

section \<open>Requests of the permission service\<close>

type_synonym int32 = "32 word"

record Entity =
  entity_Type :: string
  entity_Id :: string

record Subject =
  subject_Type :: string
  subject_Id :: string
  subject_Relation :: string

record PermissionCheckRequestMetadata =
  check_SnapToken :: string
  check_SchemaVersion :: string
  check_Depth :: int32
  check_Exclusion :: bool

record PermissionCheckRequest =
  check_TenantId :: string
  check_Metadata :: PermissionCheckRequestMetadata
  check_Entity :: Entity
  check_Permission :: string
  check_Subject :: Subject

datatype Result = RESULT_UNKNOWN | RESULT_ALLOWED | RESULT_DENIED

record PermissionCheckResponse =
  Can :: Result
  RemainingDepth :: int32

text \<open>
  The lookup-entity request.  Its metadata message is taken to be present: Execute and
  Stream write through \<open>request.Metadata\<close> without a nil check.
\<close>

record PermissionLookupEntityRequestMetadata =
  lookup_SnapToken :: string
  lookup_SchemaVersion :: string
  lookup_Depth :: int32

record PermissionLookupEntityRequest =
  lookup_TenantId :: string
  lookup_Metadata :: PermissionLookupEntityRequestMetadata
  lookup_EntityType :: string
  lookup_Permission :: string
  lookup_Subject :: Subject

section \<open>Cache keys of Check\<close>

text \<open>
  The string that SetCheckKey and GetCheckKey both format,
  \<open>fmt.Sprintf("check_%s_%s:%s:%s@%s", ...)\<close>.  \<open>tuple.EntityAndRelationToString\<close> and
  \<open>tuple.SubjectToString\<close> (pkg/tuple is not among the sources) are parameters.
\<close>

definition checkKey ::
  "(Entity \<Rightarrow> string \<Rightarrow> string) \<Rightarrow> (Subject \<Rightarrow> string) \<Rightarrow> PermissionCheckRequest \<Rightarrow> string" where
  "checkKey EntityAndRelationToString SubjectToString key =
     ''check_'' @ check_TenantId key @ ''_'' @ check_SchemaVersion (check_Metadata key) @ '':''
       @ check_SnapToken (check_Metadata key) @ '':''
       @ EntityAndRelationToString (check_Entity key) (check_Permission key) @ ''@''
       @ SubjectToString (check_Subject key)"

text \<open>
  The cache behind the interface \<open>cache.Cache\<close> (pkg/cache is not among the sources) is a
  parameter: a cache state of any type \<open>'c\<close>, with \<open>cache_Set\<close>, which takes key, value and
  cost and answers with the state it leaves and its boolean, and \<open>cache_Get\<close>, which answers
  with the value found under a key, if any.  Nothing is assumed of what a \<open>cache_Set\<close> keeps.
\<close>

type_synonym 'c cache_Set = "'c \<Rightarrow> string \<Rightarrow> PermissionCheckResponse \<Rightarrow> int \<Rightarrow> 'c \<times> bool"

type_synonym 'c cache_Get = "'c \<Rightarrow> string \<Rightarrow> PermissionCheckResponse option"

text \<open>
  SetCheckKey and GetCheckKey of \<open>CommandKeys\<close>.  \<open>xxhash_hex\<close> is the digest of
  \<open>xxhash.New\<close> rendered by \<open>hex.EncodeToString\<close>; \<open>h.Write\<close> of a hash never returns an
  error, and its first result, the cost passed to the cache, is the number of bytes
  written.  GetCheckKey's pair \<open>(response, found)\<close> is \<open>(Some response, True)\<close> or
  \<open>(None, False)\<close>.
\<close>

definition SetCheckKey ::
  "(Entity \<Rightarrow> string \<Rightarrow> string) \<Rightarrow> (Subject \<Rightarrow> string) \<Rightarrow> (string \<Rightarrow> string)
     \<Rightarrow> 'c cache_Set \<Rightarrow> 'c \<Rightarrow> PermissionCheckRequest \<Rightarrow> PermissionCheckResponse \<Rightarrow> 'c \<times> bool" where
  "SetCheckKey EntityAndRelationToString SubjectToString xxhash_hex cache_Set c key val =
     (let checkKey = checkKey EntityAndRelationToString SubjectToString key;
          size = int (length checkKey);
          k = xxhash_hex checkKey
      in cache_Set c k val size)"

definition GetCheckKey ::
  "(Entity \<Rightarrow> string \<Rightarrow> string) \<Rightarrow> (Subject \<Rightarrow> string) \<Rightarrow> (string \<Rightarrow> string)
     \<Rightarrow> 'c cache_Get \<Rightarrow> 'c \<Rightarrow> PermissionCheckRequest \<Rightarrow> PermissionCheckResponse option \<times> bool" where
  "GetCheckKey EntityAndRelationToString SubjectToString xxhash_hex cache_Get c key =
     (let checkKey = checkKey EntityAndRelationToString SubjectToString key;
          k = xxhash_hex checkKey
      in case cache_Get c k of Some resp \<Rightarrow> (Some resp, True) | None \<Rightarrow> (None, False))"

text \<open>\<open>NoopCommandKeys\<close>: nothing is stored.\<close>

definition Noop_SetCheckKey :: "PermissionCheckRequest \<Rightarrow> PermissionCheckResponse \<Rightarrow> bool" where
  "Noop_SetCheckKey key val = True"

definition Noop_GetCheckKey :: "PermissionCheckRequest \<Rightarrow> PermissionCheckResponse option \<times> bool" where
  "Noop_GetCheckKey key = (None, False)"

section \<open>The lookup-entity command\<close>

text \<open>
  \<open>LookupEntityCommand\<close>: the check command, \<open>HeadVersion\<close> of the schema reader, and
  \<open>HeadSnapshot\<close> and \<open>GetUniqueEntityIDsByEntityType\<close> of the relationship reader.
\<close>

record LookupEntityCommand =
  checkCommand :: "PermissionCheckRequest \<Rightarrow> error + PermissionCheckResponse"
  HeadVersion :: "string \<Rightarrow> error + string"
  HeadSnapshot :: "string \<Rightarrow> error + SnapToken"
  GetUniqueEntityIDsByEntityType :: "string \<Rightarrow> string \<Rightarrow> string \<Rightarrow> error + string list"

text \<open>
  The first lines of Execute: the defaults of the snapshot token and the schema version.
  \<open>Encode\<close> is \<open>st.Encode().String()\<close>.
\<close>

definition Execute_defaults ::
  "(SnapToken \<Rightarrow> string) \<Rightarrow> LookupEntityCommand \<Rightarrow> PermissionLookupEntityRequest
     \<Rightarrow> error + PermissionLookupEntityRequest" where
  "Execute_defaults Encode command request =
     (case (if lookup_SnapToken (lookup_Metadata request) = []
            then (case HeadSnapshot command (lookup_TenantId request) of
                    Inl err \<Rightarrow> Inl err
                  | Inr st \<Rightarrow>
                      Inr (request \<lparr> lookup_Metadata := (lookup_Metadata request) \<lparr> lookup_SnapToken := Encode st \<rparr> \<rparr>))
            else Inr request) of
        Inl err \<Rightarrow> Inl err
      | Inr request \<Rightarrow>
          (if lookup_SchemaVersion (lookup_Metadata request) = []
           then (case HeadVersion command (lookup_TenantId request) of
                   Inl err \<Rightarrow> Inl err
                 | Inr v \<Rightarrow>
                     Inr (request \<lparr> lookup_Metadata := (lookup_Metadata request) \<lparr> lookup_SchemaVersion := v \<rparr> \<rparr>))
           else Inr request))"

text \<open>The first lines of Stream, which repeat those of Execute.\<close>

definition Stream_defaults ::
  "(SnapToken \<Rightarrow> string) \<Rightarrow> LookupEntityCommand \<Rightarrow> PermissionLookupEntityRequest
     \<Rightarrow> error + PermissionLookupEntityRequest" where
  "Stream_defaults Encode command request =
     (case (if lookup_SnapToken (lookup_Metadata request) = []
            then (case HeadSnapshot command (lookup_TenantId request) of
                    Inl err \<Rightarrow> Inl err
                  | Inr st \<Rightarrow>
                      Inr (request \<lparr> lookup_Metadata := (lookup_Metadata request) \<lparr> lookup_SnapToken := Encode st \<rparr> \<rparr>))
            else Inr request) of
        Inl err \<Rightarrow> Inl err
      | Inr request \<Rightarrow>
          (if lookup_SchemaVersion (lookup_Metadata request) = []
           then (case HeadVersion command (lookup_TenantId request) of
                   Inl err \<Rightarrow> Inl err
                 | Inr v \<Rightarrow>
                     Inr (request \<lparr> lookup_Metadata := (lookup_Metadata request) \<lparr> lookup_SchemaVersion := v \<rparr> \<rparr>))
           else Inr request))"

text \<open>The request that internalCheck passes to the check command for one entity id.\<close>

definition check_request :: "PermissionLookupEntityRequest \<Rightarrow> string \<Rightarrow> PermissionCheckRequest" where
  "check_request request eid =
     \<lparr> check_TenantId = lookup_TenantId request,
       check_Metadata =
         \<lparr> check_SnapToken = lookup_SnapToken (lookup_Metadata request),
           check_SchemaVersion = lookup_SchemaVersion (lookup_Metadata request),
           check_Depth = lookup_Depth (lookup_Metadata request),
           check_Exclusion = False \<rparr>,
       check_Entity = \<lparr> entity_Type = lookup_EntityType request, entity_Id = eid \<rparr>,
       check_Permission = lookup_Permission request,
       check_Subject = lookup_Subject request \<rparr>"

text \<open>Whether the check of an id returns RESULT_ALLOWED (an error is not an allowance).\<close>

definition allowed :: "LookupEntityCommand \<Rightarrow> PermissionLookupEntityRequest \<Rightarrow> string \<Rightarrow> bool" where
  "allowed command request eid =
     (case checkCommand command (check_request request eid) of
        Inl err \<Rightarrow> False
      | Inr result \<Rightarrow> Can result = RESULT_ALLOWED)"

subsection \<open>The goroutines of a lookup\<close>

text \<open>
  The goroutine that runs \<open>parallelChecker\<close>, by the statement it is at: the call of
  GetUniqueEntityIDsByEntityType; the send of its error on \<open>errChan\<close> (the ids it goes on
  with are kept); the loop of \<open>g.Go\<close> over the ids left; \<open>g.Wait\<close>; the send of the
  group's error on \<open>errChan\<close>; \<open>close(resultChan)\<close>; the end.
\<close>

datatype producer =
    P_GetIDs
  | P_SendErr1 error "string list"
  | P_Go "string list"
  | P_Wait
  | P_SendErr2 error
  | P_Close
  | P_Done

text \<open>
  A goroutine of the group, running \<open>internalCheck\<close> for an id: before the check, or at
  the send of the id on \<open>resultChan\<close>.
\<close>

datatype worker = W_Check string | W_Send string

text \<open>
  The caller of \<open>parallelChecker\<close>: Execute in its \<open>range\<close> loop with the ids appended so
  far, or returned with its list; Stream in its \<open>select\<close> with the ids sent to the server
  so far, or returned with its error (\<open>None\<close>: nil).
\<close>

datatype consumer =
    Exec_Range "string list"
  | Exec_Return "string list"
  | Stream_Select "string list"
  | Stream_Return "string list" "error option"

text \<open>
  The state of a lookup: the three kinds of goroutine, the first error recorded by the
  \<open>errgroup\<close>, and \<open>resultChan\<close> (its buffer, oldest first, and whether it is closed).
  \<open>errChan\<close> is unbuffered and holds nothing: a send on it is a step taken together with
  the receive.
\<close>

record lookup_state =
  prod :: producer
  workers :: "worker list"
  group_err :: "error option"
  resultChan :: "string list"
  closed :: bool
  cons :: consumer

definition init_state :: "consumer \<Rightarrow> lookup_state" where
  "init_state c =
     \<lparr> prod = P_GetIDs, workers = [], group_err = None, resultChan = [], closed = False, cons = c \<rparr>"

text \<open>
  One step of one goroutine.  \<open>server_Send\<close> is the result of \<open>server.Send\<close> for an id.
  The group runs at most 100 goroutines (\<open>g.SetLimit(100)\<close>), \<open>resultChan\<close> buffers at most
  100 ids, and the group keeps the first error returned to it.  Execute never receives
  from \<open>errChan\<close>, so the two sends on it have steps only with Stream.
\<close>

inductive step ::
  "LookupEntityCommand \<Rightarrow> (string \<Rightarrow> error option) \<Rightarrow> PermissionLookupEntityRequest
     \<Rightarrow> lookup_state \<Rightarrow> lookup_state \<Rightarrow> bool"
  for command :: LookupEntityCommand and server_Send :: "string \<Rightarrow> error option"
    and request :: PermissionLookupEntityRequest
where
  get_ids:
    "prod s = P_GetIDs \<Longrightarrow>
     GetUniqueEntityIDsByEntityType command (lookup_TenantId request) (lookup_EntityType request)
       (lookup_SnapToken (lookup_Metadata request)) = Inr ids \<Longrightarrow>
     step command server_Send request s (s \<lparr> prod := P_Go ids \<rparr>)"
| get_ids_err:
    "prod s = P_GetIDs \<Longrightarrow>
     GetUniqueEntityIDsByEntityType command (lookup_TenantId request) (lookup_EntityType request)
       (lookup_SnapToken (lookup_Metadata request)) = Inl err \<Longrightarrow>
     step command server_Send request s (s \<lparr> prod := P_SendErr1 err [] \<rparr>)"
| send_err1:
    "prod s = P_SendErr1 err ids \<Longrightarrow> cons s = Stream_Select sent \<Longrightarrow>
     step command server_Send request s (s \<lparr> prod := P_Go ids, cons := Stream_Return sent (Some err) \<rparr>)"
| go:
    "prod s = P_Go (eid # ids) \<Longrightarrow> length (workers s) < 100 \<Longrightarrow>
     step command server_Send request s (s \<lparr> prod := P_Go ids, workers := workers s @ [W_Check eid] \<rparr>)"
| go_end:
    "prod s = P_Go [] \<Longrightarrow>
     step command server_Send request s (s \<lparr> prod := P_Wait \<rparr>)"
| check_err:
    "workers s = ws @ W_Check eid # ws' \<Longrightarrow>
     checkCommand command (check_request request eid) = Inl err \<Longrightarrow>
     step command server_Send request s
       (s \<lparr> workers := ws @ ws',
            group_err := (case group_err s of None \<Rightarrow> Some err | Some first \<Rightarrow> Some first) \<rparr>)"
| check_allowed:
    "workers s = ws @ W_Check eid # ws' \<Longrightarrow>
     checkCommand command (check_request request eid) = Inr result \<Longrightarrow>
     Can result = RESULT_ALLOWED \<Longrightarrow>
     step command server_Send request s (s \<lparr> workers := ws @ W_Send eid # ws' \<rparr>)"
| check_other:
    "workers s = ws @ W_Check eid # ws' \<Longrightarrow>
     checkCommand command (check_request request eid) = Inr result \<Longrightarrow>
     Can result \<noteq> RESULT_ALLOWED \<Longrightarrow>
     step command server_Send request s (s \<lparr> workers := ws @ ws' \<rparr>)"
| send_id:
    "workers s = ws @ W_Send eid # ws' \<Longrightarrow> length (resultChan s) < 100 \<Longrightarrow>
     step command server_Send request s (s \<lparr> workers := ws @ ws', resultChan := resultChan s @ [eid] \<rparr>)"
| wait:
    "prod s = P_Wait \<Longrightarrow> workers s = [] \<Longrightarrow>
     step command server_Send request s
       (s \<lparr> prod := (case group_err s of None \<Rightarrow> P_Close | Some err \<Rightarrow> P_SendErr2 err) \<rparr>)"
| send_err2:
    "prod s = P_SendErr2 err \<Longrightarrow> cons s = Stream_Select sent \<Longrightarrow>
     step command server_Send request s (s \<lparr> prod := P_Close, cons := Stream_Return sent (Some err) \<rparr>)"
| close:
    "prod s = P_Close \<Longrightarrow>
     step command server_Send request s (s \<lparr> prod := P_Done, closed := True \<rparr>)"
| exec_recv:
    "cons s = Exec_Range entityIDs \<Longrightarrow> resultChan s = entityID # rest \<Longrightarrow>
     step command server_Send request s (s \<lparr> resultChan := rest, cons := Exec_Range (entityIDs @ [entityID]) \<rparr>)"
| exec_end:
    "cons s = Exec_Range entityIDs \<Longrightarrow> resultChan s = [] \<Longrightarrow> closed s \<Longrightarrow>
     step command server_Send request s (s \<lparr> cons := Exec_Return entityIDs \<rparr>)"
| stream_recv:
    "cons s = Stream_Select sent \<Longrightarrow> resultChan s = eid # rest \<Longrightarrow> server_Send eid = None \<Longrightarrow>
     step command server_Send request s (s \<lparr> resultChan := rest, cons := Stream_Select (sent @ [eid]) \<rparr>)"
| stream_recv_err:
    "cons s = Stream_Select sent \<Longrightarrow> resultChan s = eid # rest \<Longrightarrow> server_Send eid = Some err \<Longrightarrow>
     step command server_Send request s (s \<lparr> resultChan := rest, cons := Stream_Return sent (Some err) \<rparr>)"
| stream_end:
    "cons s = Stream_Select sent \<Longrightarrow> resultChan s = [] \<Longrightarrow> closed s \<Longrightarrow>
     step command server_Send request s (s \<lparr> cons := Stream_Return sent None \<rparr>)"

text \<open>
  Execute: the error of a default, or the list it has when its \<open>range\<close> loop ends, in a
  state that the goroutines reach from the start.  It has no third way to return.
\<close>

inductive Execute ::
  "(SnapToken \<Rightarrow> string) \<Rightarrow> LookupEntityCommand \<Rightarrow> (string \<Rightarrow> error option)
     \<Rightarrow> PermissionLookupEntityRequest \<Rightarrow> error + string list \<Rightarrow> bool"
  for Encode :: "SnapToken \<Rightarrow> string" and command :: LookupEntityCommand
    and server_Send :: "string \<Rightarrow> error option" and request :: PermissionLookupEntityRequest
where
  Execute_default_err:
    "Execute_defaults Encode command request = Inl err \<Longrightarrow>
     Execute Encode command server_Send request (Inl err)"
| Execute_response:
    "Execute_defaults Encode command request = Inr resolved \<Longrightarrow>
     (step command server_Send resolved)\<^sup>*\<^sup>* (init_state (Exec_Range [])) s \<Longrightarrow>
     cons s = Exec_Return entityIDs \<Longrightarrow>
     Execute Encode command server_Send request (Inr entityIDs)"

text \<open>
  Stream: the ids it has sent to the server and the error it returns (\<open>None\<close>: nil).
\<close>

inductive Stream ::
  "(SnapToken \<Rightarrow> string) \<Rightarrow> LookupEntityCommand \<Rightarrow> (string \<Rightarrow> error option)
     \<Rightarrow> PermissionLookupEntityRequest \<Rightarrow> string list \<times> error option \<Rightarrow> bool"
  for Encode :: "SnapToken \<Rightarrow> string" and command :: LookupEntityCommand
    and server_Send :: "string \<Rightarrow> error option" and request :: PermissionLookupEntityRequest
where
  Stream_default_err:
    "Stream_defaults Encode command request = Inl err \<Longrightarrow>
     Stream Encode command server_Send request ([], Some err)"
| Stream_return:
    "Stream_defaults Encode command request = Inr resolved \<Longrightarrow>
     (step command server_Send resolved)\<^sup>*\<^sup>* (init_state (Stream_Select [])) s \<Longrightarrow>
     cons s = Stream_Return sent err \<Longrightarrow>
     Stream Encode command server_Send request (sent, err)"

subsection \<open>Concrete requests, caches and commands\<close>

text \<open>
  Stand-ins for \<open>tuple.EntityAndRelationToString\<close> and \<open>tuple.SubjectToString\<close>, after the
  textual form of a tuple, and a check request that differs from call to call in its
  depth only.
\<close>

definition to_s_entity :: "Entity \<Rightarrow> string \<Rightarrow> string" where
  "to_s_entity e r = entity_Type e @ '':'' @ entity_Id e @ ''#'' @ r"

definition to_s_subject :: "Subject \<Rightarrow> string" where
  "to_s_subject s =
     (if subject_Relation s = [] then subject_Type s @ '':'' @ subject_Id s
      else subject_Type s @ '':'' @ subject_Id s @ ''#'' @ subject_Relation s)"

definition check_doc1 :: "int32 \<Rightarrow> PermissionCheckRequest" where
  "check_doc1 depth =
     \<lparr> check_TenantId = ''acme'',
       check_Metadata = \<lparr> check_SnapToken = ''3'', check_SchemaVersion = ''v1'', check_Depth = depth,
                          check_Exclusion = False \<rparr>,
       check_Entity = \<lparr> entity_Type = ''doc'', entity_Id = ''1'' \<rparr>,
       check_Permission = ''read'',
       check_Subject = \<lparr> subject_Type = ''user'', subject_Id = ''2'', subject_Relation = [] \<rparr> \<rparr>"

text \<open>
  Two caches over a map from keys to responses, both read by \<open>keeping_Get\<close>: one whose
  \<open>Set\<close> keeps every entry, and one whose \<open>Set\<close> answers true and whose policy then
  does not keep the entry.
\<close>

definition keeping_Set :: "(string \<rightharpoonup> PermissionCheckResponse) cache_Set" where
  "keeping_Set m k v cost = (m(k \<mapsto> v), True)"

definition keeping_Get :: "(string \<rightharpoonup> PermissionCheckResponse) cache_Get" where
  "keeping_Get m k = m k"

definition dropping_Set :: "(string \<rightharpoonup> PermissionCheckResponse) cache_Set" where
  "dropping_Set m k v cost = (m, True)"

definition allowed_response :: PermissionCheckResponse where
  "allowed_response = \<lparr> Can = RESULT_ALLOWED, RemainingDepth = 19 \<rparr>"

text \<open>
  A lookup over the documents 1, 2 and 3 of which the subject may read 1 and 2, with
  neither token nor schema version in the request, and the same with both supplied.
\<close>

definition docs_command :: LookupEntityCommand where
  "docs_command =
     \<lparr> checkCommand = (\<lambda>r. Inr \<lparr> Can = (if entity_Id (check_Entity r) = ''3'' then RESULT_DENIED else RESULT_ALLOWED),
                                  RemainingDepth = check_Depth (check_Metadata r) - 1 \<rparr>),
       HeadVersion = (\<lambda>tenantID. Inr ''v1''),
       HeadSnapshot = (\<lambda>tenantID. Inr (XID8_Token 3)),
       GetUniqueEntityIDsByEntityType = (\<lambda>tenantID typ snap. Inr [''1'', ''2'', ''3'']) \<rparr>"

definition docs_request :: "string \<Rightarrow> string \<Rightarrow> PermissionLookupEntityRequest" where
  "docs_request snap version =
     \<lparr> lookup_TenantId = ''acme'',
       lookup_Metadata = \<lparr> lookup_SnapToken = snap, lookup_SchemaVersion = version, lookup_Depth = 20 \<rparr>,
       lookup_EntityType = ''doc'',
       lookup_Permission = ''read'',
       lookup_Subject = \<lparr> subject_Type = ''user'', subject_Id = ''1'', subject_Relation = [] \<rparr> \<rparr>"

text \<open>
  The same documents behind a check and a storage read that look at every field they are
  given: the check allows only the subject user:1 to read, in tenant acme under snapshot 3
  and schema version v1, the documents other than 3; the read knows only the documents of
  tenant acme under snapshot 3.
\<close>

definition acl_command :: LookupEntityCommand where
  "acl_command =
     \<lparr> checkCommand =
         (\<lambda>r. Inr \<lparr> Can = (if check_TenantId r = ''acme''
                                \<and> check_SnapToken (check_Metadata r) = ''3''
                                \<and> check_SchemaVersion (check_Metadata r) = ''v1''
                                \<and> check_Depth (check_Metadata r) = 20
                                \<and> \<not> check_Exclusion (check_Metadata r)
                                \<and> entity_Type (check_Entity r) = ''doc''
                                \<and> entity_Id (check_Entity r) \<noteq> ''3''
                                \<and> check_Permission r = ''read''
                                \<and> check_Subject r
                                    = \<lparr> subject_Type = ''user'', subject_Id = ''1'', subject_Relation = [] \<rparr>
                             then RESULT_ALLOWED else RESULT_DENIED),
                      RemainingDepth = check_Depth (check_Metadata r) - 1 \<rparr>),
       HeadVersion = (\<lambda>tenantID. if tenantID = ''acme'' then Inr ''v1'' else Inl (Code ERROR_CODE_EXECUTION)),
       HeadSnapshot = (\<lambda>tenantID. if tenantID = ''acme'' then Inr (XID8_Token 3) else Inl (Code ERROR_CODE_EXECUTION)),
       GetUniqueEntityIDsByEntityType =
         (\<lambda>tenantID typ snap. if tenantID = ''acme'' \<and> typ = ''doc'' \<and> snap = ''3''
                               then Inr [''1'', ''2'', ''3''] else Inr []) \<rparr>"

text \<open>The same lookup when the storage read of the entity ids fails.\<close>

definition failing_command :: LookupEntityCommand where
  "failing_command =
     docs_command \<lparr> GetUniqueEntityIDsByEntityType := (\<lambda>tenantID typ snap. Inl (Code ERROR_CODE_EXECUTION)) \<rparr>"

text \<open>The same lookup when the check of document 2 fails.\<close>

definition check_failing_command :: LookupEntityCommand where
  "check_failing_command =
     docs_command
       \<lparr> checkCommand :=
           (\<lambda>r. if entity_Id (check_Entity r) = ''2'' then Inl (Code ERROR_CODE_EXECUTION)
                else Inr \<lparr> Can = RESULT_ALLOWED, RemainingDepth = 19 \<rparr>) \<rparr>"

subsection \<open>What the goroutines of a lookup hold\<close>

text \<open>The entity ids that \<open>parallelChecker\<close> reads for a request.\<close>

definition unique_ids :: "LookupEntityCommand \<Rightarrow> PermissionLookupEntityRequest \<Rightarrow> error + string list" where
  "unique_ids command request =
     GetUniqueEntityIDsByEntityType command (lookup_TenantId request) (lookup_EntityType request)
       (lookup_SnapToken (lookup_Metadata request))"

text \<open>
  The ids the producer has yet to start a goroutine for (\<open>ids\<close> are the ids read), the ids
  a goroutine will still send, and the ids the caller has received.
\<close>

fun prod_ids :: "string list \<Rightarrow> producer \<Rightarrow> string list" where
  "prod_ids ids P_GetIDs = ids"
| "prod_ids ids (P_SendErr1 err rest) = rest"
| "prod_ids ids (P_Go rest) = rest"
| "prod_ids ids P_Wait = []"
| "prod_ids ids (P_SendErr2 err) = []"
| "prod_ids ids P_Close = []"
| "prod_ids ids P_Done = []"

fun worker_yield :: "LookupEntityCommand \<Rightarrow> PermissionLookupEntityRequest \<Rightarrow> worker \<Rightarrow> string list" where
  "worker_yield command request (W_Check eid) = (if allowed command request eid then [eid] else [])"
| "worker_yield command request (W_Send eid) = [eid]"

fun worker_id :: "worker \<Rightarrow> string" where
  "worker_id (W_Check eid) = eid"
| "worker_id (W_Send eid) = eid"

fun received :: "consumer \<Rightarrow> string list" where
  "received (Exec_Range entityIDs) = entityIDs"
| "received (Exec_Return entityIDs) = entityIDs"
| "received (Stream_Select sent) = sent"
| "received (Stream_Return sent err) = sent"

definition held :: "LookupEntityCommand \<Rightarrow> PermissionLookupEntityRequest \<Rightarrow> string list \<Rightarrow> lookup_state \<Rightarrow> string multiset" where
  "held command request ids s =
     mset (filter (allowed command request) (prod_ids ids (prod s)))
     + mset (concat (map (worker_yield command request) (workers s)))
     + mset (resultChan s)
     + mset (received (cons s))"

text \<open>How a caller has ended: normally, or with an error received from \<open>errChan\<close> or the stream.\<close>

fun normal_end :: "consumer \<Rightarrow> bool" where
  "normal_end (Exec_Return entityIDs) = True"
| "normal_end (Stream_Return sent None) = True"
| "normal_end c = False"

fun failed_end :: "consumer \<Rightarrow> bool" where
  "failed_end (Stream_Return sent (Some err)) = True"
| "failed_end c = False"

fun running :: "consumer \<Rightarrow> bool" where
  "running (Exec_Range entityIDs) = True"
| "running (Stream_Select sent) = True"
| "running c = False"

fun is_Exec :: "consumer \<Rightarrow> bool" where
  "is_Exec (Exec_Range entityIDs) = True"
| "is_Exec (Exec_Return entityIDs) = True"
| "is_Exec c = False"

text \<open>A measure that every step decreases; \<open>n\<close> is the number of ids read.\<close>

fun prod_weight :: "nat \<Rightarrow> producer \<Rightarrow> nat" where
  "prod_weight n P_GetIDs = 4 * n + 6"
| "prod_weight n (P_SendErr1 err rest) = 4 * length rest + 5"
| "prod_weight n (P_Go rest) = 4 * length rest + 4"
| "prod_weight n P_Wait = 3"
| "prod_weight n (P_SendErr2 err) = 2"
| "prod_weight n P_Close = 1"
| "prod_weight n P_Done = 0"

fun worker_weight :: "worker \<Rightarrow> nat" where
  "worker_weight (W_Check eid) = 3"
| "worker_weight (W_Send eid) = 2"

definition weight :: "LookupEntityCommand \<Rightarrow> PermissionLookupEntityRequest \<Rightarrow> lookup_state \<Rightarrow> nat" where
  "weight command request s =
     prod_weight (case unique_ids command request of Inl err \<Rightarrow> 0 | Inr ids \<Rightarrow> length ids) (prod s)
     + sum_list (map worker_weight (workers s))
     + length (resultChan s)
     + (if running (cons s) then 1 else 0)"

text \<open>No read of the lookup fails: the ids are read, and the check of each returns a result.\<close>

definition reads_succeed :: "LookupEntityCommand \<Rightarrow> PermissionLookupEntityRequest \<Rightarrow> string list \<Rightarrow> bool" where
  "reads_succeed command request ids =
     (unique_ids command request = Inr ids
      \<and> list_all (\<lambda>eid. case checkCommand command (check_request request eid) of Inl err \<Rightarrow> False | Inr result \<Rightarrow> True) ids)"

subsection \<open>Invariants of a lookup\<close>

text \<open>
  What holds of every state of Execute's lookup when no read fails: the allowed ids are
  conserved, the group has recorded no error, the producer never sends on \<open>errChan\<close>, the
  channel is closed exactly when the producer has ended, which it does only after every
  goroutine of the group, and Execute returns only from the closed, drained channel.
\<close>

definition lookup_inv :: "LookupEntityCommand \<Rightarrow> PermissionLookupEntityRequest \<Rightarrow> string list \<Rightarrow> lookup_state \<Rightarrow> bool" where
  "lookup_inv command request ids s =
     (is_Exec (cons s)
      \<and> held command request ids s = mset (filter (allowed command request) ids)
      \<and> group_err s = None
      \<and> (case prod s of P_SendErr1 err rest \<Rightarrow> False | P_SendErr2 err \<Rightarrow> False | _ \<Rightarrow> True)
      \<and> set (prod_ids ids (prod s)) \<subseteq> set ids
      \<and> worker_id ` set (workers s) \<subseteq> set ids
      \<and> (prod s = P_Close \<or> prod s = P_Done \<longrightarrow> workers s = [])
      \<and> (closed s \<longleftrightarrow> prod s = P_Done)
      \<and> (\<not> running (cons s) \<longrightarrow> closed s \<and> resultChan s = [])
      \<and> length (workers s) \<le> 100 \<and> length (resultChan s) \<le> 100)"

text \<open>
  While the group has recorded no error, each id read is still with the producer, or in a
  goroutine that has not checked it, or has a check that returned a result.
\<close>

definition checked_inv :: "LookupEntityCommand \<Rightarrow> PermissionLookupEntityRequest \<Rightarrow> string list \<Rightarrow> lookup_state \<Rightarrow> bool" where
  "checked_inv command request ids s =
     (group_err s = None \<longrightarrow>
        (\<forall>eid \<in> set ids. eid \<in> set (prod_ids ids (prod s)) \<or> W_Check eid \<in> set (workers s)
           \<or> (\<exists>result. checkCommand command (check_request request eid) = Inr result)))"

text \<open>
  What holds of every state of any lookup: a caller ends normally only on the closed
  channel; the channel is closed exactly when the producer has ended; the producer is past
  \<open>g.Wait\<close> only with no goroutine left, and past the send of the group's error only if
  there was none or the caller has received one; and it is past the send of the read's
  error only if the read succeeded or the caller has received one.
\<close>

definition end_inv :: "LookupEntityCommand \<Rightarrow> PermissionLookupEntityRequest \<Rightarrow> lookup_state \<Rightarrow> bool" where
  "end_inv command request s =
     ((normal_end (cons s) \<longrightarrow> closed s)
      \<and> (closed s \<longleftrightarrow> prod s = P_Done)
      \<and> ((case prod s of P_SendErr2 err \<Rightarrow> True | P_Close \<Rightarrow> True | P_Done \<Rightarrow> True | _ \<Rightarrow> False)
            \<longrightarrow> workers s = [])
      \<and> (prod s = P_Close \<or> prod s = P_Done \<longrightarrow> group_err s = None \<or> failed_end (cons s))
      \<and> ((case prod s of P_GetIDs \<Rightarrow> False | P_SendErr1 err rest \<Rightarrow> False | _ \<Rightarrow> True)
            \<longrightarrow> (\<exists>ids. unique_ids command request = Inr ids) \<or> failed_end (cons s)))"

text \<open>
  What holds of every state of Stream's lookup: the ids held by the goroutines, the channel
  and the caller are among the allowed ids of the list read (none, when the read failed).
\<close>

definition sent_inv :: "LookupEntityCommand \<Rightarrow> PermissionLookupEntityRequest \<Rightarrow> lookup_state \<Rightarrow> bool" where
  "sent_inv command request s =
     (let ids = (case unique_ids command request of Inl err \<Rightarrow> [] | Inr ids \<Rightarrow> ids)
      in held command request ids s \<subseteq># mset (filter (allowed command request) ids))"

section \<open>The schema DSL: action expressions\<close>

text \<open>
  The action AST of the schema definition (\<open>base.Child\<close>): a leaf with its exclusion flag,
  or a rewrite of children under an operation.
\<close>

datatype LeafType = ComputedUserSet string | TupleToUserSet string string

datatype RewriteOperation = OPERATION_UNION | OPERATION_INTERSECTION | OPERATION_EXCLUSION

datatype Child = Leaf bool LeafType | Rewrite RewriteOperation "Child list"

text \<open>
  Modelled from the spec: the lexer of the DSL (pkg/dsl is not among the sources), for the
  tokens of an action expression: identifiers, the keywords \<open>or\<close>, \<open>and\<close>, \<open>not\<close>, the
  punctuation of expressions; whitespace is ignored.
\<close>

datatype token = IDENT string | KW_OR | KW_AND | KW_NOT | LPAREN | RPAREN | DOT | ILLEGAL char

definition is_ident_char :: "char \<Rightarrow> bool" where
  "is_ident_char c =
     (let n = (of_char c :: nat)
      in (97 \<le> n \<and> n \<le> 122) \<or> (65 \<le> n \<and> n \<le> 90) \<or> (48 \<le> n \<and> n \<le> 57) \<or> n = 95)"

definition is_space :: "char \<Rightarrow> bool" where
  "is_space c = (c = CHR '' '' \<or> c = CHR 0x09 \<or> c = CHR 0x0A \<or> c = CHR 0x0D)"

definition word_token :: "string \<Rightarrow> token" where
  "word_token w =
     (if w = ''or'' then KW_OR else if w = ''and'' then KW_AND else if w = ''not'' then KW_NOT
      else IDENT w)"

function tokenize :: "string \<Rightarrow> token list" where
  "tokenize [] = []"
| "tokenize (c # cs) =
     (if is_space c then tokenize cs
      else if c = CHR ''('' then LPAREN # tokenize cs
      else if c = CHR '')'' then RPAREN # tokenize cs
      else if c = CHR ''.'' then DOT # tokenize cs
      else if is_ident_char c
        then word_token (c # takeWhile is_ident_char cs) # tokenize (dropWhile is_ident_char cs)
      else ILLEGAL c # tokenize cs)"
  by pat_completeness auto
termination
  by (relation "measure length") (auto simp: less_Suc_eq_le length_dropWhile_le)

declare tokenize.simps [simp del]

text \<open>
  Modelled from the spec: the parser of action expressions, after the grammar
  \<open>expr := term (("or"|"and") term)*\<close>, \<open>term := "not"? atom | "(" expr ")"\<close>,
  \<open>atom := IDENT ("." IDENT)?\<close>.  The raw AST keeps a chain as left-nested infix
  expressions and keeps the parentheses; an atom keeps all its segments, so that a walk of
  more than one hop reaches the compiler.  \<open>None\<close> is an unexpected token.
\<close>

datatype infix_op = OR | AND

datatype expr = Ident bool "string list" | Infix expr infix_op expr | Paren expr

fun parse_segments :: "token list \<Rightarrow> string list \<times> token list" where
  "parse_segments (DOT # IDENT b # ts) = (let (segs, rest) = parse_segments ts in (b # segs, rest))"
| "parse_segments ts = ([], ts)"

fun parse_atom :: "bool \<Rightarrow> token list \<Rightarrow> (expr \<times> token list) option" where
  "parse_atom neg (IDENT a # ts) = (let (segs, rest) = parse_segments ts in Some (Ident neg (a # segs), rest))"
| "parse_atom neg ts = None"

text \<open>The recursive descent, with the nesting depth and chain length bounded by the fuel.\<close>

fun parse_term :: "nat \<Rightarrow> token list \<Rightarrow> (expr \<times> token list) option"
  and parse_chain :: "nat \<Rightarrow> expr \<Rightarrow> token list \<Rightarrow> (expr \<times> token list) option"
  and parse_expr :: "nat \<Rightarrow> token list \<Rightarrow> (expr \<times> token list) option" where
  "parse_term 0 ts = None"
| "parse_term (Suc n) (KW_NOT # ts) = parse_atom True ts"
| "parse_term (Suc n) (LPAREN # ts) =
     (case parse_expr n ts of
        Some (e, RPAREN # rest) \<Rightarrow> Some (Paren e, rest)
      | _ \<Rightarrow> None)"
| "parse_term (Suc n) ts = parse_atom False ts"
| "parse_chain 0 left ts = None"
| "parse_chain (Suc n) left (KW_OR # ts) =
     (case parse_term n ts of
        Some (right, rest) \<Rightarrow> parse_chain n (Infix left OR right) rest
      | None \<Rightarrow> None)"
| "parse_chain (Suc n) left (KW_AND # ts) =
     (case parse_term n ts of
        Some (right, rest) \<Rightarrow> parse_chain n (Infix left AND right) rest
      | None \<Rightarrow> None)"
| "parse_chain (Suc n) left ts = Some (left, ts)"
| "parse_expr 0 ts = None"
| "parse_expr (Suc n) ts =
     (case parse_term n ts of
        Some (left, rest) \<Rightarrow> parse_chain n left rest
      | None \<Rightarrow> None)"

text \<open>
  An action expression parses when it is an expression followed by no token; the fuel is
  twice the number of tokens and two, which no expression of so many tokens exhausts.
\<close>

definition parse :: "token list \<Rightarrow> expr option" where
  "parse ts =
     (case parse_expr (2 * length ts + 2) ts of
        Some (e, []) \<Rightarrow> Some e
      | _ \<Rightarrow> None)"

text \<open>
  Modelled from the spec: what the compiler knows of an entity when it lowers an action
  of it: the entity's name, its relations with their references \<open>(entity type, relation)\<close>, and
  the names of its actions.
\<close>

record EntityStatement =
  entity_name :: string
  relation_statements :: "(string \<times> (string \<times> string) list) list"
  action_names :: "string list"

definition owns :: "EntityStatement \<Rightarrow> string \<Rightarrow> bool" where
  "owns e name = (name \<in> set (map fst (relation_statements e)) \<or> name \<in> set (action_names e))"

definition type_owns :: "EntityStatement list \<Rightarrow> string \<Rightarrow> string \<Rightarrow> bool" where
  "type_owns schema typ name = list_ex (\<lambda>e. entity_name e = typ \<and> owns e name) schema"

text \<open>
  Modelled from the spec: the compiler's lowering of an atom.  A bare identifier must be a
  relation or action of the current entity and becomes a computed user set; \<open>first.second\<close>
  needs \<open>first\<close> to be a relation of the current entity with a reference whose entity type
  owns \<open>second\<close>, and becomes a tuple-to-user-set; a longer walk is not supported; \<open>not\<close>
  sets the exclusion flag of the leaf.
\<close>

definition compile_atom :: "EntityStatement list \<Rightarrow> EntityStatement \<Rightarrow> bool \<Rightarrow> string list \<Rightarrow> error + Child" where
  "compile_atom schema e neg segs =
     (case segs of
        [name] \<Rightarrow>
          (if owns e name then Inr (Leaf neg (ComputedUserSet name))
           else Inl (Code ERROR_CODE_UNDEFINED_RELATION_REFERENCE))
      | [first, second] \<Rightarrow>
          (case map_of (relation_statements e) first of
             None \<Rightarrow> Inl (Code ERROR_CODE_UNDEFINED_RELATION_REFERENCE)
           | Some refs \<Rightarrow>
               (if list_ex (\<lambda>r. type_owns schema (fst r) second) refs
                then Inr (Leaf neg (TupleToUserSet first second))
                else Inl (Code ERROR_CODE_UNDEFINED_RELATION_REFERENCE)))
      | _ \<Rightarrow> Inl (Code ERROR_CODE_NOT_SUPPORTED_RELATION_WALK))"

fun rewrite_of :: "infix_op \<Rightarrow> RewriteOperation" where
  "rewrite_of OR = OPERATION_UNION"
| "rewrite_of AND = OPERATION_INTERSECTION"

text \<open>
  Modelled from the spec: the lowering of an expression.  \<open>X or Y\<close> becomes a UNION rewrite
  and \<open>X and Y\<close> an INTERSECTION rewrite of the lowered operands; a chain of one operator
  flattens into one rewrite (\<open>compile_chain op\<close> gives the children that an operand
  contributes to a rewrite of \<open>op\<close>), while a parenthesized operand and an operand of the
  other operator stay one child.
\<close>

fun compile :: "EntityStatement list \<Rightarrow> EntityStatement \<Rightarrow> expr \<Rightarrow> error + Child"
  and compile_chain :: "EntityStatement list \<Rightarrow> EntityStatement \<Rightarrow> infix_op \<Rightarrow> expr \<Rightarrow> error + Child list" where
  "compile schema e (Ident neg segs) = compile_atom schema e neg segs"
| "compile schema e (Paren x) = compile schema e x"
| "compile schema e (Infix l op r) =
     (case compile_chain schema e op l of
        Inl err \<Rightarrow> Inl err
      | Inr cs \<Rightarrow>
          (case compile schema e r of
             Inl err \<Rightarrow> Inl err
           | Inr c \<Rightarrow> Inr (Rewrite (rewrite_of op) (cs @ [c]))))"
| "compile_chain schema e op (Infix l op' r) =
     (case compile_chain schema e op' l of
        Inl err \<Rightarrow> Inl err
      | Inr cs \<Rightarrow>
          (case compile schema e r of
             Inl err \<Rightarrow> Inl err
           | Inr c \<Rightarrow>
               (if op' = op then Inr (cs @ [c]) else Inr [Rewrite (rewrite_of op') (cs @ [c])])))"
| "compile_chain schema e op (Ident neg segs) =
     (case compile_atom schema e neg segs of Inl err \<Rightarrow> Inl err | Inr c \<Rightarrow> Inr [c])"
| "compile_chain schema e op (Paren x) =
     (case compile schema e x of Inl err \<Rightarrow> Inl err | Inr c \<Rightarrow> Inr [c])"

text \<open>The compilation of the text of an action expression of an entity.\<close>

definition compile_action :: "EntityStatement list \<Rightarrow> EntityStatement \<Rightarrow> string \<Rightarrow> error + Child" where
  "compile_action schema e source =
     (case parse (tokenize source) of
        None \<Rightarrow> Inl (Internal ''unexpected token'')
      | Some x \<Rightarrow> compile schema e x)"

text \<open>The schema of the compiler's third test case.\<close>

definition user_entity :: EntityStatement where
  "user_entity = \<lparr> entity_name = ''user'', relation_statements = [], action_names = [] \<rparr>"

definition organization_entity :: EntityStatement where
  "organization_entity =
     \<lparr> entity_name = ''organization'',
       relation_statements = [(''owner'', [(''user'', [])]), (''admin'', [(''user'', [])])],
       action_names = [''update''] \<rparr>"

text \<open>An identifier of the DSL: a non-empty word of identifier characters that is no keyword.\<close>

definition is_identifier :: "string \<Rightarrow> bool" where
  "is_identifier w =
     (w \<noteq> [] \<and> list_all is_ident_char w \<and> w \<noteq> ''or'' \<and> w \<noteq> ''and'' \<and> w \<noteq> ''not'')"

section \<open>The head snapshot of a tenant without transactions\<close>

lemma row_Scan_no_rows: "Query_err db = None \<Longrightarrow> row_Scan db [] = Inl ErrNoRows"
  by (simp add: row_Scan_def)

lemma head_rows_empty:
  "\<forall>t \<in> set (TransactionsTable db). fst t \<noteq> tenantID \<Longrightarrow> head_rows db tenantID = []"
  by (simp add: head_rows_def filter_empty_conv)

text \<open>
  C10.  When the tenant has no row in the transactions table, and the builder and the
  query do not fail, the relational HeadSnapshot returns the token of transaction id 0
  and no error.  Moreover no call of HeadSnapshot, on any database and tenant, returns
  the no-rows condition as its error.
\<close>

theorem pg_HeadSnapshot_fresh_tenant:
  assumes "\<forall>t \<in> set (TransactionsTable db). fst t \<noteq> tenantID"
      and "ToSql_err db = None"
      and "Query_err db = None"
  shows "pg_HeadSnapshot db tenantID = Inr (XID8_Token 0)
         \<and> (\<forall>db' tenantID'. pg_HeadSnapshot db' tenantID' \<noteq> Inl ErrNoRows)"
proof -
  have zero: "pg_HeadSnapshot db tenantID = Inr (XID8_Token 0)"
    using assms by (simp add: pg_HeadSnapshot_def head_rows_empty row_Scan_no_rows)
  have never: "pg_HeadSnapshot db' tenantID' \<noteq> Inl ErrNoRows" for db' tenantID'
    by (auto simp: pg_HeadSnapshot_def split: option.splits sum.splits)
  from zero never show ?thesis by blast
qed

theorem pg_HeadSnapshot_fresh_tenant_witness:
  "TransactionsTable fresh_db = [(''acme'', 7)]
   \<and> pg_HeadSnapshot fresh_db ''globex'' = Inr (XID8_Token 0)
   \<and> pg_HeadSnapshot fresh_db ''acme'' = Inr (XID8_Token 7)"
proof -
  have h1: "\<forall>t \<in> set (TransactionsTable fresh_db). fst t \<noteq> ''globex''"
    by (simp add: fresh_db_def)
  have h2: "ToSql_err fresh_db = None" by (simp add: fresh_db_def)
  have h3: "Query_err fresh_db = None" by (simp add: fresh_db_def)
  have head: "pg_HeadSnapshot fresh_db ''acme'' = Inr (XID8_Token 7)"
    by (simp add: fresh_db_def pg_HeadSnapshot_def head_rows_def row_Scan_def)
  from pg_HeadSnapshot_fresh_tenant [OF h1 h2 h3] head show ?thesis
    by (simp add: fresh_db_def)
qed

section \<open>Decimal conversions\<close>


lemma digit_char_props:
  assumes "d < 10"
  shows "is_digit (digit_char d)" and "digit_val (digit_char d) = d"
proof -
  from assms have "d \<in> {0, 1, 2, 3, 4, 5, 6, 7, 8, 9}" by auto
  then show "is_digit (digit_char d)"
    by (auto simp: is_digit_def digit_char_def)
  from \<open>d \<in> _\<close> show "digit_val (digit_char d) = d"
    by (auto simp: digit_val_def digit_char_def)
qed

lemma digits_val_snoc: "digits_val (s @ [c]) = 10 * digits_val s + digit_val c"
  by (simp add: digits_val_def)

lemma dec_nonempty: "dec n \<noteq> []"
  by (subst dec.simps) simp

lemma dec_digits: "list_all is_digit (dec n)"
proof (induction n rule: dec.induct)
  case (1 n)
  show ?case
  proof (cases "n < 10")
    case True
    then show ?thesis by (subst dec.simps) (simp add: digit_char_props)
  next
    case False
    with 1 show ?thesis by (subst dec.simps) (simp add: digit_char_props)
  qed
qed

lemma digits_val_dec: "digits_val (dec n) = n"
proof (induction n rule: dec.induct)
  case (1 n)
  show ?case
  proof (cases "n < 10")
    case True
    then show ?thesis by (subst dec.simps) (simp add: digits_val_def digit_char_props)
  next
    case False
    with 1 show ?thesis by (subst dec.simps) (simp add: digits_val_snoc digit_char_props)
  qed
qed

lemma ParseUint_FormatUint: "ParseUint (FormatUint v) = Some v"
proof -
  have "unat v < 2 ^ 64" using unsigned_less [of v] by simp
  then show ?thesis
    by (simp add: ParseUint_def FormatUint_def dec_nonempty dec_digits digits_val_dec)
qed


section \<open>Pages of ReadRelationships\<close>


lemma page_loop_eq:
  "length acc \<le> n \<Longrightarrow>
   page_loop n lb acc ts =
     (let M = filter (\<lambda>t. lb \<le> ID t) ts in
      if length acc + length M > n
      then (acc @ map ToTuple (take (n - length acc) M),
            NewContinuousToken (FormatUint (ID (M ! (n - length acc)))))
      else (acc @ map ToTuple M, NewNoopContinuousToken))"
proof (induction ts arbitrary: acc)
  case Nil
  then show ?case by simp
next
  case (Cons t ts)
  show ?case
  proof (cases "lb \<le> ID t")
    case False
    with Cons show ?thesis by simp
  next
    case True
    show ?thesis
    proof (cases "length acc = n")
      case full: True
      with True show ?thesis by simp
    next
      case False
      with Cons.prems have lt: "length acc < n" by simp
      then have le: "length (acc @ [ToTuple t]) \<le> n" by simp
      have sub: "n - length acc = Suc (n - Suc (length acc))" using lt by simp
      show ?thesis
        using True lt Cons.IH [OF le] by (simp add: Let_def sub)
    qed
  qed
qed

lemma page_loop_page: "page_loop n lb [] ts = page n (filter (\<lambda>t. lb \<le> ID t) ts)"
  by (simp add: page_loop_eq page_def Let_def)

lemma filter_from_nth:
  fixes xs :: "RelationTuple list"
  assumes "sorted (map ID xs)" "distinct (map ID xs)" "n < length xs"
  shows "filter (\<lambda>t. ID (xs ! n) \<le> ID t) xs = drop n xs"
  using assms
proof (induction xs arbitrary: n)
  case Nil
  then show ?case by simp
next
  case (Cons x xs)
  show ?case
  proof (cases n)
    case 0
    have "\<forall>t \<in> set xs. ID x \<le> ID t" using Cons.prems(1) by auto
    then have "filter (\<lambda>t. ID x \<le> ID t) xs = xs" by (simp add: filter_id_conv)
    with 0 show ?thesis by simp
  next
    case (Suc m)
    with Cons.prems have m: "m < length xs" by simp
    then have "xs ! m \<in> set xs" by simp
    then have "ID x \<le> ID (xs ! m)" "ID x \<noteq> ID (xs ! m)" using Cons.prems(1,2) by auto
    then have "\<not> ID (xs ! m) \<le> ID x" by auto
    moreover have "filter (\<lambda>t. ID (xs ! m) \<le> ID t) xs = drop m xs"
      using Cons.IH [of m] Cons.prems m by simp
    ultimately show ?thesis using Suc by simp
  qed
qed

lemma mem_ReadRelationships_page:
  assumes "mem_lowerBound ctDecode p = Inr lb" "txn_err mdb = None"
      and "assert_tuples (fit_LowerBound mdb tenantID f) = Inr tup"
  shows "mem_ReadRelationships ctDecode mdb tenantID f snap p = Inr (page (unat (PageSize p)) (mem_matching tup lb))"
  using assms by (simp add: mem_ReadRelationships_def page_loop_page mem_matching_def)

lemma scan_rows_ok: "\<forall>rt. sc rt = None \<Longrightarrow> scan_rows sc rs = Inr rs"
  by (induction rs) simp_all

lemma unat_succ32: "unat (n :: uint32) + 1 < 2 ^ 32 \<Longrightarrow> unat (n + 1) = unat n + 1"
  by (simp add: unat_word_ariths)

lemma page_take:
  "page n (take (Suc n) M) = page n M"
  by (cases "n < length M") (auto simp: page_def min_def)

lemma pg_ReadRelationships_page:
  assumes "Decode snap = Inr st" "BeginTx_err db = None" "page_bound ctDecode p = Inr bound"
      and "ToSql_err db = None" "Query_err db = None" "\<forall>rt. Scan_err db rt = None"
      and "rows_Err db = None" "Commit_err db = None" "unat (PageSize p) + 1 < 2 ^ 32"
  shows "pg_ReadRelationships Decode ctDecode db tenantID f snap p
         = Inr (page (unat (PageSize p)) (pg_matching db tenantID f st bound))"
proof -
  let ?n = "unat (PageSize p)"
  let ?M = "pg_matching db tenantID f st bound"
  let ?rts = "take (Suc ?n) ?M"
  have rows: "pg_page_rows db tenantID f st bound (PageSize p) = ?rts"
    using assms(9) by (simp add: pg_page_rows_def unat_succ32)
  have res: "pg_ReadRelationships Decode ctDecode db tenantID f snap p =
        (if length ?rts > ?n
         then Inr (take ?n (map ToTuple ?rts), NewContinuousToken (FormatUint (lastID_of ?rts)))
         else Inr (map ToTuple ?rts, NewNoopContinuousToken))"
    using assms by (simp add: pg_ReadRelationships_def rows scan_rows_ok)
  show ?thesis
  proof (cases "?n < length ?M")
    case True
    then have len: "length ?rts = Suc ?n" by simp
    have nonempty: "?rts \<noteq> []" using len by auto
    have "last ?rts = ?rts ! ?n" using len nonempty by (simp add: last_conv_nth)
    also have "\<dots> = ?M ! ?n" by simp
    finally have last: "lastID_of ?rts = ID (?M ! ?n)" using nonempty by (simp add: lastID_of_def)
    have tk: "take ?n (map ToTuple ?rts) = map ToTuple (take ?n ?M)"
      by (simp add: take_map min_def)
    show ?thesis using True len last tk by (simp add: res page_def)
  next
    case False
    then show ?thesis by (simp add: res page_def)
  qed
qed


lemma sorted_mem_matching: "sorted (map ID (mem_matching tup lb))"
  by (simp add: mem_matching_def sorted_filter)

lemma sorted_pg_matching: "sorted (map ID (pg_matching db tenantID f st bound))"
  by (simp add: pg_matching_def)

lemma filter_from_nth_sorted:
  fixes xs :: "RelationTuple list"
  assumes "distinct (map ID xs)" "n < length (filter P (sort_key ID xs))"
      and "\<And>t. P t \<Longrightarrow> ID (filter P (sort_key ID xs) ! n) \<le> ID t \<Longrightarrow> Q t"
      and "\<And>t. Q t \<Longrightarrow> P t \<and> ID (filter P (sort_key ID xs) ! n) \<le> ID t"
  shows "filter Q (sort_key ID xs) = drop n (filter P (sort_key ID xs))"
proof -
  let ?S = "sort_key ID xs"
  let ?M = "filter P ?S"
  have "mset (map ID ?S) = mset (map ID xs)" by simp
  then have "distinct (map ID ?S)" using assms(1) mset_eq_imp_distinct_iff by blast
  then have d: "distinct (map ID ?M)" by (simp add: distinct_map_filter)
  have s: "sorted (map ID ?M)" by (simp add: sorted_filter)
  have "filter Q ?S = filter (\<lambda>t. ID (?M ! n) \<le> ID t) ?M"
    using assms(3,4) by (auto intro!: filter_cong)
  then show ?thesis using filter_from_nth [OF s d assms(2)] by simp
qed

lemma mem_matching_resume:
  assumes "distinct (map ID tup)" "n < length (mem_matching tup lb)"
  shows "mem_matching tup (ID (mem_matching tup lb ! n)) = drop n (mem_matching tup lb)"
  unfolding mem_matching_def
proof (rule filter_from_nth_sorted [OF assms(1)])
  show "n < length (filter (\<lambda>t. lb \<le> ID t) (sort_key ID tup))"
    using assms(2) by (simp add: mem_matching_def)
next
  fix t :: RelationTuple
  let ?M = "filter (\<lambda>t. lb \<le> ID t) (sort_key ID tup)"
  have "n < length ?M" using assms(2) by (simp add: mem_matching_def)
  then have "?M ! n \<in> set ?M" by (rule nth_mem)
  then have lbv: "lb \<le> ID (?M ! n)" by simp
  show "ID (?M ! n) \<le> ID t \<Longrightarrow> lb \<le> ID t \<and> ID (?M ! n) \<le> ID t"
    using lbv by auto
qed simp

lemma pg_matching_alt:
  "pg_matching db tenantID f st bound =
     filter (\<lambda>rt. case bound of None \<Rightarrow> True | Some v \<Rightarrow> v \<le> ID rt)
       (sort_key ID (map row_tuple (pg_select db tenantID f st)))"
  by (simp add: pg_matching_def filter_sort)

lemma pg_matching_resume:
  assumes "distinct (map ID (map row_tuple (pg_select db tenantID f st)))"
      and "n < length (pg_matching db tenantID f st bound)"
  shows "pg_matching db tenantID f st (Some (ID (pg_matching db tenantID f st bound ! n)))
         = drop n (pg_matching db tenantID f st bound)"
  unfolding pg_matching_alt
proof (rule filter_from_nth_sorted [OF assms(1)])
  show "n < length (filter (\<lambda>rt. case bound of None \<Rightarrow> True | Some v \<Rightarrow> v \<le> ID rt)
          (sort_key ID (map row_tuple (pg_select db tenantID f st))))"
    using assms(2) by (simp add: pg_matching_alt)
next
  fix t :: RelationTuple
  let ?P = "\<lambda>rt. case bound of None \<Rightarrow> True | Some v \<Rightarrow> v \<le> ID rt"
  let ?M = "filter ?P (sort_key ID (map row_tuple (pg_select db tenantID f st)))"
  have "n < length ?M" using assms(2) by (simp add: pg_matching_alt)
  then have "?M ! n \<in> set ?M" by (rule nth_mem)
  then have pv: "?P (?M ! n)" by simp
  show "(case Some (ID (?M ! n)) of None \<Rightarrow> True | Some v \<Rightarrow> v \<le> ID t) \<Longrightarrow> ?P t \<and> ID (?M ! n) \<le> ID t"
    using pv by (auto split: option.splits)
qed simp

lemma pg_select_distinct:
  "distinct (map (\<lambda>r. ID (row_tuple r)) (RelationTuplesTable db))
   \<Longrightarrow> distinct (map ID (map row_tuple (pg_select db tenantID f st)))"
  by (simp add: pg_select_def distinct_map_filter comp_def)

lemma mem_matching_bound: "\<forall>t \<in> set (mem_matching tup lb). lb \<le> ID t"
  by (simp add: mem_matching_def)

lemma pg_matching_bound: "\<forall>t \<in> set (pg_matching db tenantID f st (Some v)). v \<le> ID t"
  by (simp add: pg_matching_alt)

lemma page_props:
  "length (fst (page n M)) \<le> n"
  "fst (page n M) = map ToTuple (take n M)"
  "(snd (page n M) \<noteq> NewNoopContinuousToken) = (n < length M)"
  "n < length M \<Longrightarrow> snd (page n M) = NewContinuousToken (FormatUint (ID (M ! n)))"
  by (auto simp: page_def)

lemma bounds_of_token:
  "Token p = [] \<Longrightarrow> mem_lowerBound ctDecode p = Inr 0 \<and> page_bound ctDecode p = Inr None"
  "Token p \<noteq> [] \<Longrightarrow> ctDecode (Token p) = Inr s \<Longrightarrow> ParseUint s = Some v
     \<Longrightarrow> mem_lowerBound ctDecode p = Inr v \<and> page_bound ctDecode p = Inr (Some v)"
  by (simp_all add: mem_lowerBound_def page_bound_def)

text \<open>
  The page of either back end.  When the reads succeed, ReadRelationships returns the page
  of size \<open>PageSize\<close> over its matching rows: the first \<open>PageSize\<close> of the rows, which are
  in ascending order of id and at or above the bound decoded from the pagination token (no
  bound for the empty token), with a continuous token exactly when more rows than the page
  size match, holding the decimal id of the first row not returned.  With distinct ids,
  the rows that match from that id on are the rows left.  For the relational back end this
  is so when the page size is below the largest \<open>uint32\<close>, so that \<open>PageSize + 1\<close> does not
  wrap.
\<close>

theorem ReadRelationships_page:
  assumes "mem_lowerBound ctDecode p = Inr lb"
      and "txn_err mdb = None"
      and "assert_tuples (fit_LowerBound mdb tenantID f) = Inr tup"
      and "Decode snap = Inr st"
      and "BeginTx_err db = None"
      and "page_bound ctDecode p = Inr bound"
      and "ToSql_err db = None"
      and "Query_err db = None"
      and "\<forall>rt. Scan_err db rt = None"
      and "rows_Err db = None"
      and "Commit_err db = None"
      and "unat (PageSize p) + 1 < 2 ^ 32"
  shows "mem_ReadRelationships ctDecode mdb tenantID f snap p
           = Inr (page (unat (PageSize p)) (mem_matching tup lb))
       \<and> pg_ReadRelationships Decode ctDecode db tenantID f snap p
           = Inr (page (unat (PageSize p)) (pg_matching db tenantID f st bound))
       \<and> sorted (map ID (mem_matching tup lb))
       \<and> sorted (map ID (pg_matching db tenantID f st bound))
       \<and> (\<forall>t \<in> set (mem_matching tup lb). lb \<le> ID t)
       \<and> (\<forall>v. bound = Some v \<longrightarrow> (\<forall>t \<in> set (pg_matching db tenantID f st bound). v \<le> ID t))
       \<and> (Token p = [] \<longrightarrow> lb = 0 \<and> bound = None)
       \<and> (\<forall>s. Token p \<noteq> [] \<and> ctDecode (Token p) = Inr s \<longrightarrow> ParseUint s = Some lb \<and> bound = Some lb)
       \<and> (\<forall>n M. length (fst (page n M)) \<le> n
             \<and> fst (page n M) = map ToTuple (take n M)
             \<and> ((snd (page n M) \<noteq> NewNoopContinuousToken) = (n < length M))
             \<and> (n < length M \<longrightarrow> snd (page n M) = NewContinuousToken (FormatUint (ID (M ! n)))
                                  \<and> ParseUint (FormatUint (ID (M ! n))) = Some (ID (M ! n))))
       \<and> (\<forall>n. distinct (map ID tup) \<and> n < length (mem_matching tup lb)
             \<longrightarrow> mem_matching tup (ID (mem_matching tup lb ! n)) = drop n (mem_matching tup lb))
       \<and> (\<forall>n. distinct (map (\<lambda>r. ID (row_tuple r)) (RelationTuplesTable db))
               \<and> n < length (pg_matching db tenantID f st bound)
             \<longrightarrow> pg_matching db tenantID f st (Some (ID (pg_matching db tenantID f st bound ! n)))
                 = drop n (pg_matching db tenantID f st bound))"
proof -
  have c1: "mem_ReadRelationships ctDecode mdb tenantID f snap p
           = Inr (page (unat (PageSize p)) (mem_matching tup lb))"
    using assms(1-3) by (rule mem_ReadRelationships_page)
  have c2: "pg_ReadRelationships Decode ctDecode db tenantID f snap p
           = Inr (page (unat (PageSize p)) (pg_matching db tenantID f st bound))"
    using assms(4-12) by (rule pg_ReadRelationships_page)
  have c5: "\<forall>t \<in> set (mem_matching tup lb). lb \<le> ID t" by (rule mem_matching_bound)
  have c6: "\<forall>v. bound = Some v \<longrightarrow> (\<forall>t \<in> set (pg_matching db tenantID f st bound). v \<le> ID t)"
    using pg_matching_bound by blast
  have c7: "Token p = [] \<longrightarrow> lb = 0 \<and> bound = None"
    using assms(1,6) by (auto simp: mem_lowerBound_def page_bound_def)
  have c8: "\<forall>s. Token p \<noteq> [] \<and> ctDecode (Token p) = Inr s \<longrightarrow> ParseUint s = Some lb \<and> bound = Some lb"
    using assms(1,6) by (auto simp: mem_lowerBound_def page_bound_def split: option.splits)
  have c9: "\<forall>n M. length (fst (page n M)) \<le> n
             \<and> fst (page n M) = map ToTuple (take n M)
             \<and> ((snd (page n M) \<noteq> NewNoopContinuousToken) = (n < length M))
             \<and> (n < length M \<longrightarrow> snd (page n M) = NewContinuousToken (FormatUint (ID (M ! n)))
                                  \<and> ParseUint (FormatUint (ID (M ! n))) = Some (ID (M ! n)))"
    by (simp add: page_props ParseUint_FormatUint)
  have c10: "\<forall>n. distinct (map ID tup) \<and> n < length (mem_matching tup lb)
             \<longrightarrow> mem_matching tup (ID (mem_matching tup lb ! n)) = drop n (mem_matching tup lb)"
    using mem_matching_resume by blast
  have c11: "\<forall>n. distinct (map (\<lambda>r. ID (row_tuple r)) (RelationTuplesTable db))
               \<and> n < length (pg_matching db tenantID f st bound)
             \<longrightarrow> pg_matching db tenantID f st (Some (ID (pg_matching db tenantID f st bound ! n)))
                 = drop n (pg_matching db tenantID f st bound)"
    using pg_matching_resume pg_select_distinct by blast
  show ?thesis
    using c1 c2 sorted_mem_matching sorted_pg_matching c5 c6 c7 c8 c9 c10 c11 by blast
qed

lemma three_mem_tup:
  "assert_tuples (fit_LowerBound three_mem ''acme'' any_filter)
     = Inr [rt_of 30 ''c'', rt_of 10 ''a'', rt_of 20 ''b'']"
  by (simp add: fit_LowerBound_def three_mem_def)

lemma three_mem_matching:
  "mem_matching [rt_of 30 ''c'', rt_of 10 ''a'', rt_of 20 ''b''] 0 = [rt_of 10 ''a'', rt_of 20 ''b'', rt_of 30 ''c'']"
  by (simp add: mem_matching_def rt_of_def)

lemma three_db_matching:
  "pg_matching three_db ''acme'' any_filter 3 None = [rt_of 10 ''a'', rt_of 20 ''b'', rt_of 30 ''c'']"
  by (simp add: pg_matching_def pg_select_def three_db_def SnapshotQuery_def rt_of_def)

theorem ReadRelationships_page_witness:
  "mem_ReadRelationships ct_Decode three_mem ''acme'' any_filter ''3'' \<lparr> PageSize = 2, Token = [] \<rparr>
     = Inr ([ToTuple (rt_of 10 ''a''), ToTuple (rt_of 20 ''b'')], NewContinuousToken ''30'')
   \<and> pg_ReadRelationships snap_Decode ct_Decode three_db ''acme'' any_filter ''3'' \<lparr> PageSize = 2, Token = [] \<rparr>
     = Inr ([ToTuple (rt_of 10 ''a''), ToTuple (rt_of 20 ''b'')], NewContinuousToken ''30'')
   \<and> mem_ReadRelationships ct_Decode three_mem ''acme'' any_filter ''3'' \<lparr> PageSize = 2, Token = ''30'' \<rparr>
     = Inr ([ToTuple (rt_of 30 ''c'')], NewNoopContinuousToken)
   \<and> pg_ReadRelationships snap_Decode ct_Decode three_db ''acme'' any_filter ''3'' \<lparr> PageSize = 2, Token = ''30'' \<rparr>
     = Inr ([ToTuple (rt_of 30 ''c'')], NewNoopContinuousToken)"
proof -
  let ?p = "\<lparr> PageSize = 2, Token = [] \<rparr> :: Pagination"
  let ?q = "\<lparr> PageSize = 2, Token = ''30'' \<rparr> :: Pagination"
  have h1: "mem_lowerBound ct_Decode ?p = Inr 0" by (simp add: mem_lowerBound_def)
  have h2: "txn_err three_mem = None" by (simp add: three_mem_def)
  have h4: "snap_Decode ''3'' = Inr 3"
    by (simp add: snap_Decode_def ParseUint_def is_digit_def digits_val_def digit_val_def)
  have h5: "BeginTx_err three_db = None" by (simp add: three_db_def)
  have h6: "page_bound ct_Decode ?p = Inr None" by (simp add: page_bound_def)
  have h7: "ToSql_err three_db = None" by (simp add: three_db_def)
  have h8: "Query_err three_db = None" by (simp add: three_db_def)
  have h9: "\<forall>rt. Scan_err three_db rt = None" by (simp add: three_db_def)
  have h10: "rows_Err three_db = None" by (simp add: three_db_def)
  have h11: "Commit_err three_db = None" by (simp add: three_db_def)
  have h12: "unat (PageSize ?p) + 1 < 2 ^ 32" by simp
  have pg: "page 2 [rt_of 10 ''a'', rt_of 20 ''b'', rt_of 30 ''c'']
     = ([ToTuple (rt_of 10 ''a''), ToTuple (rt_of 20 ''b'')], NewContinuousToken ''30'')"
    by (simp add: page_def rt_of_def FormatUint_def dec.simps digit_char_def)
  from ReadRelationships_page [where Decode = snap_Decode and snap = "''3''" and ctDecode = ct_Decode
      and mdb = three_mem and db = three_db and tenantID = "''acme''" and f = any_filter and p = ?p,
      OF h1 h2 three_mem_tup h4 h5 h6 h7 h8 h9 h10 h11 h12]
  have first: "mem_ReadRelationships ct_Decode three_mem ''acme'' any_filter ''3'' ?p
       = Inr ([ToTuple (rt_of 10 ''a''), ToTuple (rt_of 20 ''b'')], NewContinuousToken ''30'')
     \<and> pg_ReadRelationships snap_Decode ct_Decode three_db ''acme'' any_filter ''3'' ?p
       = Inr ([ToTuple (rt_of 10 ''a''), ToTuple (rt_of 20 ''b'')], NewContinuousToken ''30'')"
    by (simp add: three_mem_matching three_db_matching pg)
  have p30: "ParseUint ''30'' = Some 30"
    by (simp add: ParseUint_def is_digit_def digits_val_def digit_val_def)
  have g1: "mem_lowerBound ct_Decode ?q = Inr 30" by (simp add: mem_lowerBound_def ct_Decode_def p30)
  have g6: "page_bound ct_Decode ?q = Inr (Some 30)" by (simp add: page_bound_def ct_Decode_def p30)
  have g12: "unat (PageSize ?q) + 1 < 2 ^ 32" by simp
  have m2: "mem_matching [rt_of 30 ''c'', rt_of 10 ''a'', rt_of 20 ''b''] 30 = [rt_of 30 ''c'']"
    by (simp add: mem_matching_def rt_of_def word_le_nat_alt)
  have d2: "pg_matching three_db ''acme'' any_filter 3 (Some 30) = [rt_of 30 ''c'']"
    by (simp add: pg_matching_def pg_select_def three_db_def SnapshotQuery_def rt_of_def word_le_nat_alt)
  have pg2: "page 2 [rt_of 30 ''c''] = ([ToTuple (rt_of 30 ''c'')], NewNoopContinuousToken)"
    by (simp add: page_def)
  from ReadRelationships_page [where Decode = snap_Decode and snap = "''3''" and ctDecode = ct_Decode
      and mdb = three_mem and db = three_db and tenantID = "''acme''" and f = any_filter and p = ?q,
      OF g1 h2 three_mem_tup h4 h5 g6 h7 h8 h9 h10 h11 g12]
  have second: "mem_ReadRelationships ct_Decode three_mem ''acme'' any_filter ''3'' ?q
       = Inr ([ToTuple (rt_of 30 ''c'')], NewNoopContinuousToken)
     \<and> pg_ReadRelationships snap_Decode ct_Decode three_db ''acme'' any_filter ''3'' ?q
       = Inr ([ToTuple (rt_of 30 ''c'')], NewNoopContinuousToken)"
    by (simp add: m2 d2 pg2)
  from first second show ?thesis by simp
qed


section \<open>Snapshots in QueryRelationships\<close>

lemma assert_tuples_ok:
  "Obj_other \<notin> set os \<Longrightarrow> \<exists>ts. assert_tuples os = Inr ts \<and> os = map Obj_RelationTuple ts"
proof (induction os)
  case Nil
  then show ?case by simp
next
  case (Cons ob os)
  then obtain ts where ts: "assert_tuples os = Inr ts" "os = map Obj_RelationTuple ts" by auto
  from Cons.prems obtain rt where "ob = Obj_RelationTuple rt" by (cases ob) auto
  with ts show ?case by simp
qed

lemma mem_QueryRelationships_ignores_snapshot:
  "mem_QueryRelationships mdb tenantID f snap' = mem_QueryRelationships mdb tenantID f snap"
  by (simp add: mem_QueryRelationships_def)

lemma mem_QueryRelationships_all:
  assumes "txn_err mdb = None" "Obj_other \<notin> set (fit_Get mdb tenantID f)"
  shows "\<exists>ts. mem_QueryRelationships mdb tenantID f snap = Inr ts
           \<and> (\<forall>t. t \<in> set ts \<longleftrightarrow>
                 (\<exists>c rt. (c, Obj_RelationTuple rt) \<in> set (Table mdb)
                    \<and> index_Get mdb tenantID f (Obj_RelationTuple rt)
                    \<and> \<not> FilterQuery mdb f (Obj_RelationTuple rt) \<and> t = ToTuple rt))"
proof -
  from assert_tuples_ok [OF assms(2)] obtain rts
    where rts: "assert_tuples (fit_Get mdb tenantID f) = Inr rts"
      and fit: "fit_Get mdb tenantID f = map Obj_RelationTuple rts" by blast
  have res: "mem_QueryRelationships mdb tenantID f snap = Inr (map ToTuple rts)"
    using assms(1) rts by (simp add: mem_QueryRelationships_def)
  have mem: "rt \<in> set rts \<longleftrightarrow>
       (\<exists>c. (c, Obj_RelationTuple rt) \<in> set (Table mdb)) \<and> index_Get mdb tenantID f (Obj_RelationTuple rt)
         \<and> \<not> FilterQuery mdb f (Obj_RelationTuple rt)" for rt
  proof -
    have "rt \<in> set rts \<longleftrightarrow> Obj_RelationTuple rt \<in> set (fit_Get mdb tenantID f)"
      by (auto simp: fit)
    also have "\<dots> \<longleftrightarrow> (\<exists>c. (c, Obj_RelationTuple rt) \<in> set (Table mdb))
         \<and> index_Get mdb tenantID f (Obj_RelationTuple rt)
         \<and> \<not> FilterQuery mdb f (Obj_RelationTuple rt)"
      by (auto simp: fit_Get_def image_iff) force
    finally show ?thesis .
  qed
  have "t \<in> set (map ToTuple rts) \<longleftrightarrow>
                 (\<exists>c rt. (c, Obj_RelationTuple rt) \<in> set (Table mdb)
                    \<and> index_Get mdb tenantID f (Obj_RelationTuple rt)
                    \<and> \<not> FilterQuery mdb f (Obj_RelationTuple rt) \<and> t = ToTuple rt)" for t
  proof
    assume "t \<in> set (map ToTuple rts)"
    then obtain rt where "rt \<in> set rts" "t = ToTuple rt" by auto
    then show "\<exists>c rt. (c, Obj_RelationTuple rt) \<in> set (Table mdb)
                    \<and> index_Get mdb tenantID f (Obj_RelationTuple rt)
                    \<and> \<not> FilterQuery mdb f (Obj_RelationTuple rt) \<and> t = ToTuple rt"
      using mem by blast
  next
    assume "\<exists>c rt. (c, Obj_RelationTuple rt) \<in> set (Table mdb)
                    \<and> index_Get mdb tenantID f (Obj_RelationTuple rt)
                    \<and> \<not> FilterQuery mdb f (Obj_RelationTuple rt) \<and> t = ToTuple rt"
    then obtain rt where "rt \<in> set rts" "t = ToTuple rt" using mem by blast
    then show "t \<in> set (map ToTuple rts)" by auto
  qed
  with res show ?thesis by blast
qed

lemma pg_QueryRelationships_visible:
  assumes "Decode snap = Inr st" "BeginTx_err db = None" "ToSql_err db = None" "Query_err db = None"
      and "\<forall>rt. Scan_err db rt = None" "rows_Err db = None" "Commit_err db = None"
  shows "\<exists>ts. pg_QueryRelationships Decode db tenantID f snap = Inr ts
           \<and> (\<forall>t. t \<in> set ts \<longleftrightarrow>
                 (\<exists>r \<in> set (RelationTuplesTable db). TenantID (row_tuple r) = tenantID
                    \<and> where_filter db f (row_tuple r) \<and> SnapshotQuery st r \<and> t = ToTuple (row_tuple r)))"
proof -
  have "pg_QueryRelationships Decode db tenantID f snap
        = Inr (map ToTuple (map row_tuple (pg_select db tenantID f st)))"
    using assms by (simp add: pg_QueryRelationships_def scan_rows_ok)
  then show ?thesis by (auto simp: pg_select_def)
qed

lemma snap_3: "snap_Decode ''3'' = Inr 3"
  by (simp add: snap_Decode_def ParseUint_def is_digit_def digits_val_def digit_val_def)

lemma snap_1: "snap_Decode ''1'' = Inr 1"
  by (simp add: snap_Decode_def ParseUint_def is_digit_def digits_val_def digit_val_def)

text \<open>
  C2, as the code has it.  When its reads succeed, the relational QueryRelationships
  returns exactly the tuples of the tenant's rows that satisfy the filter's clauses and
  the snapshot clause of the decoded transaction id (\<open>SnapshotQuery\<close>: committed at or
  before it).  The in-memory QueryRelationships never reads its snapshot argument: it
  returns the tuple of every stored object that the index lookup yields and the filter
  keeps, whatever the time of its commit, and the same result under every token.
\<close>

theorem QueryRelationships_snapshot:
  assumes "Decode snap = Inr st" "BeginTx_err db = None" "ToSql_err db = None" "Query_err db = None"
      and "\<forall>rt. Scan_err db rt = None" "rows_Err db = None" "Commit_err db = None"
      and "txn_err mdb = None" "Obj_other \<notin> set (fit_Get mdb tenantID f)"
  shows "(\<exists>ts. pg_QueryRelationships Decode db tenantID f snap = Inr ts
           \<and> (\<forall>t. t \<in> set ts \<longleftrightarrow>
                 (\<exists>r \<in> set (RelationTuplesTable db). TenantID (row_tuple r) = tenantID
                    \<and> where_filter db f (row_tuple r) \<and> SnapshotQuery st r \<and> t = ToTuple (row_tuple r))))
       \<and> (\<exists>ts. mem_QueryRelationships mdb tenantID f snap = Inr ts
           \<and> (\<forall>t. t \<in> set ts \<longleftrightarrow>
                 (\<exists>c rt. (c, Obj_RelationTuple rt) \<in> set (Table mdb)
                    \<and> index_Get mdb tenantID f (Obj_RelationTuple rt)
                    \<and> \<not> FilterQuery mdb f (Obj_RelationTuple rt) \<and> t = ToTuple rt)))
       \<and> (\<forall>snap'. mem_QueryRelationships mdb tenantID f snap' = mem_QueryRelationships mdb tenantID f snap)"
  using pg_QueryRelationships_visible [of Decode snap st db tenantID f, OF assms(1-7)]
    mem_QueryRelationships_all [OF assms(8,9)]
    mem_QueryRelationships_ignores_snapshot by blast

theorem QueryRelationships_snapshot_witness:
  "pg_QueryRelationships snap_Decode three_db ''acme'' any_filter ''1'' = Inr [ToTuple (rt_of 10 ''a'')]
   \<and> mem_QueryRelationships three_mem ''acme'' any_filter ''1''
       = Inr [ToTuple (rt_of 30 ''c''), ToTuple (rt_of 10 ''a''), ToTuple (rt_of 20 ''b'')]
   \<and> (\<exists>ts. pg_QueryRelationships snap_Decode three_db ''acme'' any_filter ''1'' = Inr ts
         \<and> ToTuple (rt_of 10 ''a'') \<in> set ts \<and> ToTuple (rt_of 30 ''c'') \<notin> set ts)"
proof -
  have h2: "BeginTx_err three_db = None" by (simp add: three_db_def)
  have h3: "ToSql_err three_db = None" by (simp add: three_db_def)
  have h4: "Query_err three_db = None" by (simp add: three_db_def)
  have h5: "\<forall>rt. Scan_err three_db rt = None" by (simp add: three_db_def)
  have h6: "rows_Err three_db = None" by (simp add: three_db_def)
  have h7: "Commit_err three_db = None" by (simp add: three_db_def)
  have h8: "txn_err three_mem = None" by (simp add: three_mem_def)
  have h9: "Obj_other \<notin> set (fit_Get three_mem ''acme'' any_filter)"
    by (simp add: fit_Get_def three_mem_def)
  have pg: "pg_QueryRelationships snap_Decode three_db ''acme'' any_filter ''1'' = Inr [ToTuple (rt_of 10 ''a'')]"
    by (simp add: pg_QueryRelationships_def snap_1 three_db_def pg_select_def SnapshotQuery_def rt_of_def
        word_le_nat_alt)
  have mem: "mem_QueryRelationships three_mem ''acme'' any_filter ''1''
       = Inr [ToTuple (rt_of 30 ''c''), ToTuple (rt_of 10 ''a''), ToTuple (rt_of 20 ''b'')]"
    by (simp add: mem_QueryRelationships_def fit_Get_def three_mem_def)
  have ne: "ToTuple (rt_of 30 ''c'') \<noteq> ToTuple (rt_of 10 ''a'')"
    by (simp add: ToTuple_def rt_of_def)
  from QueryRelationships_snapshot [where Decode = snap_Decode and snap = "''1''" and db = three_db
      and mdb = three_mem and tenantID = "''acme''" and f = any_filter,
      OF snap_1 h2 h3 h4 h5 h6 h7 h8 h9] pg mem ne
  show ?thesis by simp
qed

text \<open>
  C2 as stated fails on the in-memory back end: the tuple of id 30 was committed at time
  3, and a read under the token of time 1 returns it.
\<close>

theorem QueryRelationships_snapshot_counterexample:
  "(3, Obj_RelationTuple (rt_of 30 ''c'')) \<in> set (Table three_mem)
   \<and> \<not> (3 :: nat) \<le> 1
   \<and> snap_Encode (Time_Token 1) = ''1''
   \<and> mem_QueryRelationships three_mem ''acme'' any_filter (snap_Encode (Time_Token 1))
       = Inr [ToTuple (rt_of 30 ''c''), ToTuple (rt_of 10 ''a''), ToTuple (rt_of 20 ''b'')]"
  by (simp add: mem_QueryRelationships_def fit_Get_def three_mem_def dec.simps digit_char_def)

section \<open>A pagination token that is not a decimal uint64\<close>

text \<open>
  C8, as the code has it.  When the non-empty pagination token decodes to a value that is
  not a decimal unsigned 64-bit integer (empty, a byte that is not a digit, or a value
  from \<open>2 ^ 64\<close> on), the in-memory ReadRelationships returns the error
  INVALID_CONTINUOUS_TOKEN; the relational one does so once the snapshot token has decoded
  and the transaction has begun, and otherwise returns the error of that earlier step.
  No call returns a tuple collection.
\<close>

theorem ReadRelationships_invalid_continuous_token:
  assumes "Token p \<noteq> []"
      and "ctDecode (Token p) = Inr t"
      and "t = [] \<or> \<not> list_all is_digit t \<or> 2 ^ 64 \<le> digits_val t"
  shows "mem_ReadRelationships ctDecode mdb tenantID f snap p = Inl (Code ERROR_CODE_INVALID_CONTINUOUS_TOKEN)
       \<and> (\<forall>st. Decode snap = Inr st \<and> BeginTx_err db = None
             \<longrightarrow> pg_ReadRelationships Decode ctDecode db tenantID f snap p
                 = Inl (Code ERROR_CODE_INVALID_CONTINUOUS_TOKEN))
       \<and> (\<forall>err. Decode snap = Inl err
             \<longrightarrow> pg_ReadRelationships Decode ctDecode db tenantID f snap p = Inl err)
       \<and> (\<forall>st err. Decode snap = Inr st \<and> BeginTx_err db = Some err
             \<longrightarrow> pg_ReadRelationships Decode ctDecode db tenantID f snap p = Inl err)"
proof -
  have parse: "ParseUint t = None"
    using assms(3) by (auto simp: ParseUint_def)
  have m: "mem_lowerBound ctDecode p = Inl (Code ERROR_CODE_INVALID_CONTINUOUS_TOKEN)"
    using assms(1,2) parse by (simp add: mem_lowerBound_def)
  have b: "page_bound ctDecode p = Inl (Code ERROR_CODE_INVALID_CONTINUOUS_TOKEN)"
    using assms(1,2) parse by (simp add: page_bound_def)
  show ?thesis
    using m b by (simp add: mem_ReadRelationships_def pg_ReadRelationships_def)
qed

theorem ReadRelationships_invalid_continuous_token_witness:
  "mem_ReadRelationships ct_Decode three_mem ''acme'' any_filter ''3'' bad_page
     = Inl (Code ERROR_CODE_INVALID_CONTINUOUS_TOKEN)
   \<and> pg_ReadRelationships snap_Decode ct_Decode three_db ''acme'' any_filter ''3'' bad_page
     = Inl (Code ERROR_CODE_INVALID_CONTINUOUS_TOKEN)"
proof -
  have h1: "Token bad_page \<noteq> []" by (simp add: bad_page_def)
  have h2: "ct_Decode (Token bad_page) = Inr ''abc''" by (simp add: bad_page_def ct_Decode_def)
  have h3: "''abc'' = [] \<or> \<not> list_all is_digit ''abc'' \<or> 2 ^ 64 \<le> digits_val ''abc''"
    by (simp add: is_digit_def)
  have h4: "snap_Decode ''3'' = Inr 3"
    by (simp add: snap_Decode_def ParseUint_def is_digit_def digits_val_def digit_val_def)
  have h5: "BeginTx_err three_db = None" by (simp add: three_db_def)
  from ReadRelationships_invalid_continuous_token [where ctDecode = ct_Decode and Decode = snap_Decode
      and snap = "''3''" and db = three_db, OF h1 h2 h3] h4 h5
  show ?thesis by simp
qed

text \<open>
  C8 as stated fails on the relational back end: with a snapshot token that does not
  decode, the error returned is the snapshot decoder's, not INVALID_CONTINUOUS_TOKEN.
\<close>

theorem ReadRelationships_invalid_continuous_token_counterexample:
  "Token bad_page \<noteq> [] \<and> ct_Decode (Token bad_page) = Inr ''abc'' \<and> ParseUint ''abc'' = None
   \<and> pg_ReadRelationships snap_Decode ct_Decode three_db ''acme'' any_filter ''!'' bad_page
       = Inl (Internal ''illegal base64 data'')
   \<and> pg_ReadRelationships snap_Decode ct_Decode three_db ''acme'' any_filter ''!'' bad_page
       \<noteq> Inl (Code ERROR_CODE_INVALID_CONTINUOUS_TOKEN)"
  by (simp add: bad_page_def ct_Decode_def ParseUint_def is_digit_def snap_Decode_def
      pg_ReadRelationships_def)

section \<open>Errors that the relational reader returns as they are\<close>

text \<open>
  C9 at two failing inputs: when \<open>tx.Commit\<close> fails, QueryRelationships returns the
  driver's error with its text, and when \<open>rows.Scan\<close> fails, ReadRelationships returns
  the scan's error; neither is a code of the enumeration.
\<close>

theorem pg_reader_returns_driver_errors:
  "pg_QueryRelationships snap_Decode commit_fails_db ''acme'' any_filter ''3''
     = Inl (Internal ''driver: bad connection'')
   \<and> \<not> is_stable_code (Internal ''driver: bad connection'')
   \<and> pg_ReadRelationships snap_Decode ct_Decode scan_fails_db ''acme'' any_filter ''3''
        \<lparr> PageSize = 2, Token = [] \<rparr>
     = Inl (Internal ''sql: Scan error on column index 0'')
   \<and> \<not> is_stable_code (Internal ''sql: Scan error on column index 0'')"
proof -
  have h4: "snap_Decode ''3'' = Inr 3"
    by (simp add: snap_Decode_def ParseUint_def is_digit_def digits_val_def digit_val_def)
  have q: "pg_QueryRelationships snap_Decode commit_fails_db ''acme'' any_filter ''3''
     = Inl (Internal ''driver: bad connection'')"
    by (simp add: pg_QueryRelationships_def h4 commit_fails_db_def three_db_def pg_select_def
        SnapshotQuery_def rt_of_def)
  have r: "pg_ReadRelationships snap_Decode ct_Decode scan_fails_db ''acme'' any_filter ''3''
        \<lparr> PageSize = 2, Token = [] \<rparr>
     = Inl (Internal ''sql: Scan error on column index 0'')"
    by (simp add: pg_ReadRelationships_def h4 scan_fails_db_def three_db_def pg_select_def
        SnapshotQuery_def rt_of_def page_bound_def pg_page_rows_def pg_matching_def)
  show ?thesis using q r by simp
qed

section \<open>The cache key of a Check request\<close>

lemma checkKey_not_injective:
  "checkKey to_s_entity to_s_subject
     ((check_doc1 20) \<lparr> check_TenantId := ''a_b'',
                       check_Metadata := \<lparr> check_SnapToken = ''3'', check_SchemaVersion = ''c'', check_Depth = 20,
                                            check_Exclusion = False \<rparr> \<rparr>)
   = checkKey to_s_entity to_s_subject
     ((check_doc1 20) \<lparr> check_TenantId := ''a'',
                       check_Metadata := \<lparr> check_SnapToken = ''3'', check_SchemaVersion = ''b_c'', check_Depth = 20,
                                            check_Exclusion = False \<rparr> \<rparr>)"
  by (simp add: checkKey_def check_doc1_def)

text \<open>
  C5.  The key string of a check request is \<open>check_\<close>, its tenant, \<open>_\<close>, its schema version,
  \<open>:\<close>, its snapshot token, \<open>:\<close>, its entity with the permission, \<open>@\<close>, its subject, and
  nothing else: two requests that agree on those six fields have the same key string,
  whatever their other fields (depth, exclusion) are.  SetCheckKey is the cache's Set at the
  digest of that string, with the response and with the length of the string as cost, and
  it answers what the cache answers; GetCheckKey is the cache's Get at the same digest.  So
  GetCheckKey for a request that agrees with the one set returns a response with found true
  exactly when the cache's Get finds that response under the digest, and nothing with found
  false when the cache holds nothing there; and on a cache whose Get finds whatever a Set
  that answered true was given, GetCheckKey after such a SetCheckKey returns the response
  that was set.
\<close>

theorem check_key_round_trip:
  assumes "check_TenantId a = check_TenantId b"
      and "check_SchemaVersion (check_Metadata a) = check_SchemaVersion (check_Metadata b)"
      and "check_SnapToken (check_Metadata a) = check_SnapToken (check_Metadata b)"
      and "check_Entity a = check_Entity b"
      and "check_Permission a = check_Permission b"
      and "check_Subject a = check_Subject b"
  shows "checkKey ears sts a
           = ''check_'' @ check_TenantId a @ ''_'' @ check_SchemaVersion (check_Metadata a) @ '':''
               @ check_SnapToken (check_Metadata a) @ '':'' @ ears (check_Entity a) (check_Permission a)
               @ ''@'' @ sts (check_Subject a)
       \<and> checkKey ears sts b = checkKey ears sts a
       \<and> SetCheckKey ears sts h cache_Set c a v
           = cache_Set c (h (checkKey ears sts a)) v (int (length (checkKey ears sts a)))
       \<and> GetCheckKey ears sts h cache_Get c' b
           = (case cache_Get c' (h (checkKey ears sts a)) of
                Some resp \<Rightarrow> (Some resp, True) | None \<Rightarrow> (None, False))
       \<and> ((GetCheckKey ears sts h cache_Get c' b = (Some v, True))
            = (cache_Get c' (h (checkKey ears sts a)) = Some v))
       \<and> ((GetCheckKey ears sts h cache_Get c' b = (None, False))
            = (cache_Get c' (h (checkKey ears sts a)) = None))
       \<and> ((\<forall>c0 k v0 cost c1. cache_Set c0 k v0 cost = (c1, True) \<longrightarrow> cache_Get c1 k = Some v0)
            \<longrightarrow> (\<forall>c0 c1 v0. SetCheckKey ears sts h cache_Set c0 a v0 = (c1, True)
                    \<longrightarrow> GetCheckKey ears sts h cache_Get c1 b = (Some v0, True)))"
proof -
  have fmt: "checkKey ears sts a
           = ''check_'' @ check_TenantId a @ ''_'' @ check_SchemaVersion (check_Metadata a) @ '':''
               @ check_SnapToken (check_Metadata a) @ '':'' @ ears (check_Entity a) (check_Permission a)
               @ ''@'' @ sts (check_Subject a)"
    by (simp add: checkKey_def)
  have key: "checkKey ears sts b = checkKey ears sts a"
    using assms by (simp add: checkKey_def)
  have set: "SetCheckKey ears sts h cache_Set c a v
           = cache_Set c (h (checkKey ears sts a)) v (int (length (checkKey ears sts a)))"
    by (simp add: SetCheckKey_def Let_def)
  have get: "GetCheckKey ears sts h cache_Get c1 b
           = (case cache_Get c1 (h (checkKey ears sts a)) of
                Some resp \<Rightarrow> (Some resp, True) | None \<Rightarrow> (None, False))" for c1
    by (simp add: GetCheckKey_def Let_def key)
  have hit: "(GetCheckKey ears sts h cache_Get c' b = (Some v, True))
            = (cache_Get c' (h (checkKey ears sts a)) = Some v)"
    by (simp add: get split: option.splits)
  have miss: "(GetCheckKey ears sts h cache_Get c' b = (None, False))
            = (cache_Get c' (h (checkKey ears sts a)) = None)"
    by (simp add: get split: option.splits)
  have trip: "GetCheckKey ears sts h cache_Get c1 b = (Some v0, True)"
    if keeps: "\<forall>c0 k v0 cost c1. cache_Set c0 k v0 cost = (c1, True) \<longrightarrow> cache_Get c1 k = Some v0"
      and s: "SetCheckKey ears sts h cache_Set c0 a v0 = (c1, True)" for c0 c1 v0
  proof -
    from s have "cache_Set c0 (h (checkKey ears sts a)) v0 (int (length (checkKey ears sts a))) = (c1, True)"
      by (simp add: SetCheckKey_def Let_def)
    with keeps have "cache_Get c1 (h (checkKey ears sts a)) = Some v0" by blast
    then show ?thesis by (simp add: get)
  qed
  have trip': "(\<forall>c0 k v0 cost c1. cache_Set c0 k v0 cost = (c1, True) \<longrightarrow> cache_Get c1 k = Some v0)
            \<longrightarrow> (\<forall>c0 c1 v0. SetCheckKey ears sts h cache_Set c0 a v0 = (c1, True)
                    \<longrightarrow> GetCheckKey ears sts h cache_Get c1 b = (Some v0, True))"
    using trip by (intro impI allI)
  show ?thesis by (intro conjI fmt key set get hit miss trip')
qed

theorem check_key_round_trip_witness:
  "checkKey to_s_entity to_s_subject (check_doc1 20) = ''check_acme_v1:3:doc:1#read@user:2''
   \<and> checkKey to_s_entity to_s_subject (check_doc1 7) = ''check_acme_v1:3:doc:1#read@user:2''
   \<and> SetCheckKey to_s_entity to_s_subject rev keeping_Set Map.empty (check_doc1 20) allowed_response
       = ([''2:resu@daer#1:cod:3:1v_emca_kcehc'' \<mapsto> allowed_response], True)
   \<and> GetCheckKey to_s_entity to_s_subject rev keeping_Get
        [''2:resu@daer#1:cod:3:1v_emca_kcehc'' \<mapsto> allowed_response] (check_doc1 7)
      = (Some allowed_response, True)"
proof -
  have k: "''check_'' @ check_TenantId (check_doc1 20) @ ''_''
             @ check_SchemaVersion (check_Metadata (check_doc1 20)) @ '':''
             @ check_SnapToken (check_Metadata (check_doc1 20)) @ '':''
             @ to_s_entity (check_Entity (check_doc1 20)) (check_Permission (check_doc1 20))
             @ ''@'' @ to_s_subject (check_Subject (check_doc1 20))
           = ''check_acme_v1:3:doc:1#read@user:2''"
    by (simp add: check_doc1_def to_s_entity_def to_s_subject_def)
  have keeps: "\<forall>c0 k v0 cost c1. keeping_Set c0 k v0 cost = (c1, True) \<longrightarrow> keeping_Get c1 k = Some v0"
    by (auto simp: keeping_Set_def keeping_Get_def)
  note w = check_key_round_trip [where a = "check_doc1 20" and b = "check_doc1 7" and ears = to_s_entity
      and sts = to_s_subject and h = rev and cache_Set = keeping_Set and cache_Get = keeping_Get
      and c = Map.empty and v = allowed_response
      and c' = "[''2:resu@daer#1:cod:3:1v_emca_kcehc'' \<mapsto> allowed_response]"]
  have w': "checkKey to_s_entity to_s_subject (check_doc1 20) = ''check_acme_v1:3:doc:1#read@user:2''
      \<and> checkKey to_s_entity to_s_subject (check_doc1 7) = checkKey to_s_entity to_s_subject (check_doc1 20)
      \<and> SetCheckKey to_s_entity to_s_subject rev keeping_Set Map.empty (check_doc1 20) allowed_response
          = keeping_Set Map.empty (rev (checkKey to_s_entity to_s_subject (check_doc1 20))) allowed_response
              (int (length (checkKey to_s_entity to_s_subject (check_doc1 20))))
      \<and> (\<forall>c0 c1 v0. SetCheckKey to_s_entity to_s_subject rev keeping_Set c0 (check_doc1 20) v0 = (c1, True)
              \<longrightarrow> GetCheckKey to_s_entity to_s_subject rev keeping_Get c1 (check_doc1 7) = (Some v0, True))"
    using w keeps k by (simp add: check_doc1_def)
  then have key: "checkKey to_s_entity to_s_subject (check_doc1 20) = ''check_acme_v1:3:doc:1#read@user:2''"
    and key7: "checkKey to_s_entity to_s_subject (check_doc1 7) = ''check_acme_v1:3:doc:1#read@user:2''"
    by simp_all
  from w' have s: "SetCheckKey to_s_entity to_s_subject rev keeping_Set Map.empty (check_doc1 20) allowed_response
       = ([''2:resu@daer#1:cod:3:1v_emca_kcehc'' \<mapsto> allowed_response], True)"
    by (simp add: key keeping_Set_def)
  from w' s have "GetCheckKey to_s_entity to_s_subject rev keeping_Get
        [''2:resu@daer#1:cod:3:1v_emca_kcehc'' \<mapsto> allowed_response] (check_doc1 7)
      = (Some allowed_response, True)"
    by blast
  with key key7 s show ?thesis by (intro conjI)
qed

text \<open>
  The sentence of C5 that GetCheckKey after a SetCheckKey that answered true finds the
  response does not hold of every cache: with a cache whose Set answers true and whose
  policy does not keep the entry, SetCheckKey answers true and GetCheckKey for the same
  request finds nothing; and \<open>NoopCommandKeys\<close>, the other implementation of the key
  manager, always answers true to SetCheckKey and never finds anything.
\<close>

theorem check_key_round_trip_counterexample:
  "SetCheckKey to_s_entity to_s_subject rev dropping_Set Map.empty (check_doc1 20) allowed_response
     = (Map.empty, True)
   \<and> GetCheckKey to_s_entity to_s_subject rev keeping_Get Map.empty (check_doc1 20) = (None, False)
   \<and> Noop_SetCheckKey (check_doc1 20) allowed_response
   \<and> Noop_GetCheckKey (check_doc1 20) = (None, False)"
  by (simp add: SetCheckKey_def GetCheckKey_def Let_def dropping_Set_def keeping_Get_def
      Noop_SetCheckKey_def Noop_GetCheckKey_def)

section \<open>Defaults of a lookup\<close>

text \<open>
  C7.  Execute and Stream resolve the defaults alike.  A snapshot token and a schema
  version that the request supplies are kept as they are, and then neither head is read;
  an empty snapshot token is replaced by the encoding of HeadSnapshot of the tenant, an
  empty schema version by HeadVersion of the tenant, nothing else of the request changes;
  and the goroutines of the lookup run on the resolved request.
\<close>

theorem lookup_defaults:
  "Stream_defaults Encode command request = Execute_defaults Encode command request
   \<and> (lookup_SnapToken (lookup_Metadata request) \<noteq> [] \<and> lookup_SchemaVersion (lookup_Metadata request) \<noteq> []
        \<longrightarrow> Execute_defaults Encode command request = Inr request)
   \<and> (\<forall>st. lookup_SnapToken (lookup_Metadata request) = [] \<and> lookup_SchemaVersion (lookup_Metadata request) \<noteq> []
          \<and> HeadSnapshot command (lookup_TenantId request) = Inr st
        \<longrightarrow> Execute_defaults Encode command request
            = Inr (request \<lparr> lookup_Metadata := (lookup_Metadata request) \<lparr> lookup_SnapToken := Encode st \<rparr> \<rparr>))
   \<and> (\<forall>v. lookup_SnapToken (lookup_Metadata request) \<noteq> [] \<and> lookup_SchemaVersion (lookup_Metadata request) = []
          \<and> HeadVersion command (lookup_TenantId request) = Inr v
        \<longrightarrow> Execute_defaults Encode command request
            = Inr (request \<lparr> lookup_Metadata := (lookup_Metadata request) \<lparr> lookup_SchemaVersion := v \<rparr> \<rparr>))
   \<and> (\<forall>st v. lookup_SnapToken (lookup_Metadata request) = [] \<and> lookup_SchemaVersion (lookup_Metadata request) = []
          \<and> HeadSnapshot command (lookup_TenantId request) = Inr st
          \<and> HeadVersion command (lookup_TenantId request) = Inr v
        \<longrightarrow> Execute_defaults Encode command request
            = Inr (request \<lparr> lookup_Metadata :=
                     (lookup_Metadata request) \<lparr> lookup_SnapToken := Encode st, lookup_SchemaVersion := v \<rparr> \<rparr>))
   \<and> (\<forall>entityIDs. Execute Encode command server_Send request (Inr entityIDs)
        \<longrightarrow> (\<exists>resolved s. Execute_defaults Encode command request = Inr resolved
               \<and> (step command server_Send resolved)\<^sup>*\<^sup>* (init_state (Exec_Range [])) s
               \<and> cons s = Exec_Return entityIDs))
   \<and> (\<forall>sent err. Stream Encode command server_Send request (sent, err)
        \<longrightarrow> (\<exists>e. Stream_defaults Encode command request = Inl e \<and> sent = [] \<and> err = Some e)
          \<or> (\<exists>resolved s. Stream_defaults Encode command request = Inr resolved
               \<and> (step command server_Send resolved)\<^sup>*\<^sup>* (init_state (Stream_Select [])) s
               \<and> cons s = Stream_Return sent err))"
proof -
  have eq: "Stream_defaults Encode command request = Execute_defaults Encode command request"
    by (simp add: Stream_defaults_def Execute_defaults_def)
  have ex: "\<forall>entityIDs. Execute Encode command server_Send request (Inr entityIDs)
        \<longrightarrow> (\<exists>resolved s. Execute_defaults Encode command request = Inr resolved
               \<and> (step command server_Send resolved)\<^sup>*\<^sup>* (init_state (Exec_Range [])) s
               \<and> cons s = Exec_Return entityIDs)"
    by (auto simp: Execute.simps)
  have st: "\<forall>sent err. Stream Encode command server_Send request (sent, err)
        \<longrightarrow> (\<exists>e. Stream_defaults Encode command request = Inl e \<and> sent = [] \<and> err = Some e)
          \<or> (\<exists>resolved s. Stream_defaults Encode command request = Inr resolved
               \<and> (step command server_Send resolved)\<^sup>*\<^sup>* (init_state (Stream_Select [])) s
               \<and> cons s = Stream_Return sent err)"
    by (auto simp: Stream.simps)
  show ?thesis
    using eq ex st by (simp add: Execute_defaults_def)
qed

theorem lookup_defaults_witness:
  "Execute_defaults snap_Encode docs_command (docs_request [] []) = Inr (docs_request ''3'' ''v1'')
   \<and> Stream_defaults snap_Encode docs_command (docs_request [] []) = Inr (docs_request ''3'' ''v1'')
   \<and> Execute_defaults snap_Encode docs_command (docs_request ''2'' ''v0'') = Inr (docs_request ''2'' ''v0'')
   \<and> Execute_defaults snap_Encode docs_command (docs_request [] ''v0'') = Inr (docs_request ''3'' ''v0'')
   \<and> Execute_defaults snap_Encode docs_command (docs_request ''2'' []) = Inr (docs_request ''2'' ''v1'')"
proof -
  have enc: "snap_Encode (XID8_Token 3) = ''3''"
    by (simp add: FormatUint_def dec.simps digit_char_def)
  have hs: "HeadSnapshot docs_command (lookup_TenantId (docs_request snap version)) = Inr (XID8_Token 3)"
    for snap version by (simp add: docs_command_def)
  have hv: "HeadVersion docs_command (lookup_TenantId (docs_request snap version)) = Inr ''v1''"
    for snap version by (simp add: docs_command_def)
  note w = lookup_defaults [where Encode = snap_Encode and command = docs_command]
  from w [of "docs_request [] []"] hs hv enc
  have both: "Execute_defaults snap_Encode docs_command (docs_request [] []) = Inr (docs_request ''3'' ''v1'')
      \<and> Stream_defaults snap_Encode docs_command (docs_request [] []) = Inr (docs_request ''3'' ''v1'')"
    by (simp add: docs_request_def)
  from w [of "docs_request ''2'' ''v0''"]
  have none: "Execute_defaults snap_Encode docs_command (docs_request ''2'' ''v0'') = Inr (docs_request ''2'' ''v0'')"
    by (simp add: docs_request_def)
  from w [of "docs_request [] ''v0''"] hs enc
  have snap: "Execute_defaults snap_Encode docs_command (docs_request [] ''v0'') = Inr (docs_request ''3'' ''v0'')"
    by (simp add: docs_request_def)
  from w [of "docs_request ''2'' []"] hv
  have ver: "Execute_defaults snap_Encode docs_command (docs_request ''2'' []) = Inr (docs_request ''2'' ''v1'')"
    by (simp add: docs_request_def)
  from both none snap ver show ?thesis by blast
qed

section \<open>The goroutines of a lookup\<close>

lemma step_decreases:
  "step command server_Send request s s' \<Longrightarrow> weight command request s' < weight command request s"
  by (induction rule: step.induct) (auto simp: weight_def unique_ids_def split: option.splits)

lemma wf_step: "wf {(s', s). step command server_Send request s s'}"
proof (rule wf_subset)
  show "wf (measure (weight command request))" by simp
  show "{(s', s). step command server_Send request s s'} \<subseteq> measure (weight command request)"
    using step_decreases by auto
qed

lemma inv_init:
  "lookup_inv command request ids (init_state (Exec_Range []))"
  by (simp add: lookup_inv_def init_state_def held_def)

lemma check_ok:
  assumes "reads_succeed command request ids" "eid \<in> set ids"
  shows "checkCommand command (check_request request eid) \<noteq> Inl err"
  using assms by (auto simp: reads_succeed_def list_all_iff split: sum.splits)

lemma inv_step:
  assumes "reads_succeed command request ids"
      and "step command server_Send request s s'"
      and "lookup_inv command request ids s"
  shows "lookup_inv command request ids s'"
  using assms(2,3)
proof (induction rule: step.induct)
  case (get_ids s ids')
  with assms(1) have "ids' = ids" by (simp add: reads_succeed_def unique_ids_def)
  with get_ids show ?case by (auto simp: lookup_inv_def held_def)
next
  case (get_ids_err s err)
  with assms(1) show ?case by (simp add: reads_succeed_def unique_ids_def)
next
  case (send_err1 s err ids sent)
  then show ?case by (simp add: lookup_inv_def)
next
  case (go s eid ids')
  then show ?case by (auto simp: lookup_inv_def held_def)
next
  case (go_end s)
  then show ?case by (auto simp: lookup_inv_def held_def)
next
  case (check_err s ws eid ws' err)
  then have "eid \<in> set ids" by (auto simp: lookup_inv_def)
  with check_ok [OF assms(1)] check_err show ?case by blast
next
  case (check_allowed s ws eid ws' result)
  then have "allowed command request eid" by (simp add: allowed_def)
  with check_allowed show ?case by (auto simp: lookup_inv_def held_def)
next
  case (check_other s ws eid ws' result)
  then have "\<not> allowed command request eid" by (simp add: allowed_def)
  with check_other show ?case by (auto simp: lookup_inv_def held_def)
next
  case (send_id s ws eid ws')
  then show ?case by (auto simp: lookup_inv_def held_def)
next
  case (wait s)
  then show ?case by (auto simp: lookup_inv_def held_def)
next
  case (send_err2 s err sent)
  then show ?case by (simp add: lookup_inv_def)
next
  case (close s)
  then show ?case by (auto simp: lookup_inv_def held_def)
next
  case (exec_recv s entityIDs entityID rest)
  then show ?case by (auto simp: lookup_inv_def held_def)
next
  case (exec_end s entityIDs)
  then show ?case by (auto simp: lookup_inv_def held_def)
next
  case (stream_recv s sent eid rest)
  then show ?case by (simp add: lookup_inv_def)
next
  case (stream_recv_err s sent eid rest err)
  then show ?case by (simp add: lookup_inv_def)
next
  case (stream_end s sent)
  then show ?case by (simp add: lookup_inv_def)
qed

lemma inv_reachable:
  assumes "reads_succeed command request ids"
      and "(step command server_Send request)\<^sup>*\<^sup>* (init_state (Exec_Range [])) s"
  shows "lookup_inv command request ids s"
  using assms(2)
  by (induction rule: rtranclp_induct) (auto intro: inv_init inv_step [OF assms(1)])

lemma inv_returned:
  assumes "lookup_inv command request ids s" "cons s = Exec_Return entityIDs"
  shows "mset entityIDs = mset (filter (allowed command request) ids)"
proof -
  from assms have "closed s" "resultChan s = []" by (auto simp: lookup_inv_def)
  with assms(1) have "prod s = P_Done" "workers s = []" by (auto simp: lookup_inv_def)
  with assms \<open>resultChan s = []\<close> show ?thesis by (auto simp: lookup_inv_def held_def)
qed

lemma worker_step:
  assumes "workers s = w # ws"
      and "resultChan s \<noteq> [] \<longrightarrow> (\<exists>xs. cons s = Exec_Range xs)"
  shows "\<exists>s'. step command server_Send request s s'"
proof (cases w)
  case (W_Check eid)
  with assms have ws: "workers s = [] @ W_Check eid # ws" by simp
  show ?thesis
  proof (cases "checkCommand command (check_request request eid)")
    case (Inl err)
    from step.check_err [OF ws Inl] show ?thesis by blast
  next
    case (Inr result)
    show ?thesis
    proof (cases "Can result = RESULT_ALLOWED")
      case True
      from step.check_allowed [OF ws Inr True] show ?thesis by blast
    next
      case False
      from step.check_other [OF ws Inr False] show ?thesis by blast
    qed
  qed
next
  case (W_Send eid)
  with assms have ws: "workers s = [] @ W_Send eid # ws" by simp
  show ?thesis
  proof (cases "length (resultChan s) < 100")
    case True
    from step.send_id [OF ws True] show ?thesis by blast
  next
    case False
    then have "resultChan s \<noteq> []" by auto
    with assms(2) obtain xs where c: "cons s = Exec_Range xs" by blast
    from \<open>resultChan s \<noteq> []\<close> obtain x rest where r: "resultChan s = x # rest" by (cases "resultChan s") auto
    from step.exec_recv [OF c r] show ?thesis by blast
  qed
qed

lemma inv_progress:
  assumes "lookup_inv command request ids s" "unique_ids command request = Inr ids"
      and "cons s = Exec_Range entityIDs"
  shows "\<exists>s'. step command server_Send request s s'"
proof (cases "workers s")
  case (Cons w ws)
  with assms(3) show ?thesis using worker_step [of s w ws] by simp
next
  case Nil
  show ?thesis
  proof (cases "prod s")
    case P_GetIDs
    have "step command server_Send request s (s \<lparr> prod := P_Go ids \<rparr>)"
      using P_GetIDs assms(2) by (intro step.get_ids) (simp_all add: unique_ids_def)
    then show ?thesis by blast
  next
    case (P_SendErr1 err rest)
    with assms(1) show ?thesis by (simp add: lookup_inv_def)
  next
    case (P_Go rest)
    show ?thesis
    proof (cases rest)
      case Nil
      with P_Go step.go_end show ?thesis by blast
    next
      case (Cons eid rest')
      with P_Go \<open>workers s = []\<close> step.go [of s eid rest'] show ?thesis by auto
    qed
  next
    case P_Wait
    from step.wait [OF P_Wait Nil] show ?thesis by blast
  next
    case (P_SendErr2 err)
    with assms(1) show ?thesis by (simp add: lookup_inv_def)
  next
    case P_Close
    from step.close [OF P_Close] show ?thesis by blast
  next
    case P_Done
    with assms(1) have cl: "closed s" by (simp add: lookup_inv_def)
    show ?thesis
    proof (cases "resultChan s")
      case Nil
      from step.exec_end [OF assms(3) Nil cl] show ?thesis by blast
    next
      case (Cons x rest)
      from step.exec_recv [OF assms(3) Cons] show ?thesis by blast
    qed
  qed
qed

lemma inv_is_Exec:
  "lookup_inv command request ids s \<Longrightarrow> (\<exists>xs. cons s = Exec_Range xs) \<or> (\<exists>xs. cons s = Exec_Return xs)"
  by (cases "cons s") (simp_all add: lookup_inv_def)

lemma run_to_end:
  assumes "reads_succeed command request ids"
  shows "lookup_inv command request ids s
         \<Longrightarrow> \<exists>s' xs. (step command server_Send request)\<^sup>*\<^sup>* s s' \<and> cons s' = Exec_Return xs"
proof (induction "weight command request s" arbitrary: s rule: less_induct)
  case less
  from inv_is_Exec [OF less.prems] show ?case
  proof
    assume "\<exists>xs. cons s = Exec_Return xs"
    then show ?thesis by blast
  next
    assume "\<exists>xs. cons s = Exec_Range xs"
    then obtain xs where "cons s = Exec_Range xs" ..
    with inv_progress [OF less.prems] assms obtain s1 where s1: "step command server_Send request s s1"
      by (auto simp: reads_succeed_def)
    from inv_step [OF assms s1 less.prems] have "lookup_inv command request ids s1" .
    with less.hyps [OF step_decreases [OF s1]] obtain s' ys
      where "(step command server_Send request)\<^sup>*\<^sup>* s1 s'" "cons s' = Exec_Return ys" by blast
    with s1 show ?thesis by (meson converse_rtranclp_into_rtranclp)
  qed
qed

lemma checked_inv_step:
  assumes "step command server_Send request s s'" "checked_inv command request ids s"
      and "unique_ids command request = Inr ids"
  shows "checked_inv command request ids s'"
  using assms
proof (induction rule: step.induct)
  case (check_allowed s ws eid ws' result)
  show ?case unfolding checked_inv_def
  proof (intro impI ballI)
    fix e assume g: "group_err (s\<lparr>workers := ws @ W_Send eid # ws'\<rparr>) = None" and e: "e \<in> set ids"
    from check_allowed(4) g e
    have "e \<in> set (prod_ids ids (prod s)) \<or> W_Check e \<in> set (workers s)
           \<or> (\<exists>result. checkCommand command (check_request request e) = Inr result)"
      by (simp add: checked_inv_def)
    then show "e \<in> set (prod_ids ids (prod (s\<lparr>workers := ws @ W_Send eid # ws'\<rparr>)))
         \<or> W_Check e \<in> set (workers (s\<lparr>workers := ws @ W_Send eid # ws'\<rparr>))
         \<or> (\<exists>result. checkCommand command (check_request request e) = Inr result)"
      using check_allowed(1,2) by (cases "e = eid") auto
  qed
next
  case (check_other s ws eid ws' result)
  show ?case unfolding checked_inv_def
  proof (intro impI ballI)
    fix e assume g: "group_err (s\<lparr>workers := ws @ ws'\<rparr>) = None" and e: "e \<in> set ids"
    from check_other(4) g e
    have "e \<in> set (prod_ids ids (prod s)) \<or> W_Check e \<in> set (workers s)
           \<or> (\<exists>result. checkCommand command (check_request request e) = Inr result)"
      by (simp add: checked_inv_def)
    then show "e \<in> set (prod_ids ids (prod (s\<lparr>workers := ws @ ws'\<rparr>)))
         \<or> W_Check e \<in> set (workers (s\<lparr>workers := ws @ ws'\<rparr>))
         \<or> (\<exists>result. checkCommand command (check_request request e) = Inr result)"
      using check_other(1,2) by (cases "e = eid") auto
  qed
next
  case (get_ids s ids')
  then show ?case by (simp add: checked_inv_def unique_ids_def)
next
  case (go s eid rest)
  then show ?case by (auto simp: checked_inv_def)
next
  case (check_err s ws eid ws' err)
  then show ?case by (simp add: checked_inv_def split: option.splits)
next
  case (send_id s ws eid ws')
  then show ?case by (auto simp: checked_inv_def)
qed (simp_all add: checked_inv_def unique_ids_def)

lemma end_inv_init:
  "running c \<Longrightarrow> end_inv command request (init_state c)"
  by (cases c) (simp_all add: end_inv_def init_state_def)

lemma end_inv_step:
  assumes "step command server_Send request s s'" "end_inv command request s"
  shows "end_inv command request s'"
  using assms
proof (induction rule: step.induct)
  case (get_ids s ids)
  then show ?case by (auto simp: end_inv_def unique_ids_def)
next
  case (get_ids_err s err)
  then show ?case by (auto simp: end_inv_def unique_ids_def)
next
  case (send_err1 s err ids sent)
  then show ?case by (auto simp: end_inv_def)
next
  case (go s eid ids)
  then show ?case by (auto simp: end_inv_def)
next
  case (go_end s)
  then show ?case by (auto simp: end_inv_def)
next
  case (check_err s ws eid ws' err)
  then have "workers s \<noteq> []" by simp
  with check_err(3) have "prod s \<noteq> P_Close" "prod s \<noteq> P_Done" "\<forall>e. prod s \<noteq> P_SendErr2 e"
    by (auto simp: end_inv_def)
  with check_err show ?case by (auto simp: end_inv_def split: producer.splits)
next
  case (check_allowed s ws eid ws' result)
  then have "workers s \<noteq> []" by simp
  with check_allowed(4) have "prod s \<noteq> P_Close" "prod s \<noteq> P_Done" "\<forall>e. prod s \<noteq> P_SendErr2 e"
    by (auto simp: end_inv_def)
  with check_allowed show ?case by (auto simp: end_inv_def split: producer.splits)
next
  case (check_other s ws eid ws' result)
  then have "workers s \<noteq> []" by simp
  with check_other(4) have "prod s \<noteq> P_Close" "prod s \<noteq> P_Done" "\<forall>e. prod s \<noteq> P_SendErr2 e"
    by (auto simp: end_inv_def)
  with check_other show ?case by (auto simp: end_inv_def split: producer.splits)
next
  case (send_id s ws eid ws')
  then have "workers s \<noteq> []" by simp
  with send_id(3) have "prod s \<noteq> P_Close" "prod s \<noteq> P_Done" "\<forall>e. prod s \<noteq> P_SendErr2 e"
    by (auto simp: end_inv_def)
  with send_id show ?case by (auto simp: end_inv_def split: producer.splits)
next
  case (wait s)
  then show ?case by (cases "group_err s") (auto simp: end_inv_def)
next
  case (send_err2 s err sent)
  then show ?case by (auto simp: end_inv_def)
next
  case (close s)
  then show ?case by (auto simp: end_inv_def)
next
  case (exec_recv s entityIDs entityID rest)
  then show ?case by (auto simp: end_inv_def)
next
  case (exec_end s entityIDs)
  then show ?case by (auto simp: end_inv_def)
next
  case (stream_recv s sent eid rest)
  then show ?case by (auto simp: end_inv_def)
next
  case (stream_recv_err s sent eid rest err)
  then show ?case by (auto simp: end_inv_def)
next
  case (stream_end s sent)
  then show ?case by (auto simp: end_inv_def)
qed

lemma checked_inv_init:
  "checked_inv command request ids (init_state c)"
  by (simp add: checked_inv_def init_state_def)

lemma checked_inv_reachable:
  assumes "unique_ids command request = Inr ids"
      and "(step command server_Send request)\<^sup>*\<^sup>* (init_state c) s"
  shows "checked_inv command request ids s"
  using assms(2)
proof (induction rule: rtranclp_induct)
  case base
  show ?case by (rule checked_inv_init)
next
  case (step y z)
  from checked_inv_step [OF step(2) step(3) assms(1)] show ?case .
qed

lemma end_inv_reachable:
  assumes "running c" "(step command server_Send request)\<^sup>*\<^sup>* (init_state c) s"
  shows "end_inv command request s"
  using assms(2)
proof (induction rule: rtranclp_induct)
  case base
  show ?case by (rule end_inv_init [OF assms(1)])
next
  case (step y z)
  from end_inv_step [OF step(2) step(3)] show ?case .
qed

lemma normal_not_failed: "normal_end c \<Longrightarrow> \<not> failed_end c"
  by (cases c rule: failed_end.cases) simp_all

lemma normal_end_reads_succeed:
  assumes "running c" "(step command server_Send request)\<^sup>*\<^sup>* (init_state c) s"
      and "normal_end (cons s)"
  shows "\<exists>ids. reads_succeed command request ids"
proof -
  have e: "end_inv command request s" by (rule end_inv_reachable [OF assms(1,2)])
  have nf: "\<not> failed_end (cons s)" by (rule normal_not_failed [OF assms(3)])
  from e assms(3) have cl: "closed s" by (simp add: end_inv_def)
  with e have pd: "prod s = P_Done" by (simp add: end_inv_def)
  with e have ws: "workers s = []" by (simp add: end_inv_def)
  from e pd nf have ge: "group_err s = None" by (simp add: end_inv_def)
  from e pd nf obtain ids where ids: "unique_ids command request = Inr ids"
    by (auto simp: end_inv_def)
  have "checked_inv command request ids s" by (rule checked_inv_reachable [OF ids assms(2)])
  with ge pd ws
  have "\<forall>eid \<in> set ids. \<exists>result. checkCommand command (check_request request eid) = Inr result"
    by (simp add: checked_inv_def)
  with ids have "reads_succeed command request ids"
    by (auto simp: reads_succeed_def list_all_iff split: sum.splits)
  then show ?thesis ..
qed

lemma Execute_returns_only_after_reads:
  assumes "Execute Encode command server_Send request out"
  shows "(\<exists>err. out = Inl err \<and> Execute_defaults Encode command request = Inl err)
       \<or> (\<exists>entityIDs resolved ids. out = Inr entityIDs
             \<and> Execute_defaults Encode command request = Inr resolved
             \<and> reads_succeed command resolved ids)"
  using assms
proof (cases rule: Execute.cases)
  case (Execute_default_err err)
  then show ?thesis by simp
next
  case (Execute_response resolved s entityIDs)
  have "\<exists>ids. reads_succeed command resolved ids"
    by (rule normal_end_reads_succeed [OF _ Execute_response(3)]) (simp_all add: Execute_response(4))
  with Execute_response show ?thesis by blast
qed

lemma reads_succeedI:
  assumes "GetUniqueEntityIDsByEntityType command (lookup_TenantId request) (lookup_EntityType request)
             (lookup_SnapToken (lookup_Metadata request)) = Inr ids"
      and "\<forall>eid \<in> set ids. \<exists>result. checkCommand command (check_request request eid) = Inr result"
  shows "reads_succeed command request ids"
  using assms by (auto simp: reads_succeed_def unique_ids_def list_all_iff split: sum.splits)

text \<open>
  C1.  When the defaults resolve, GetUniqueEntityIDsByEntityType for the request's tenant
  and entity type under the resolved snapshot returns the ids, and the check of each id
  returns a result, Execute returns, and whatever it returns is a list with exactly the ids
  read whose check returned RESULT_ALLOWED: as a multiset the allowed ids in the list read,
  so as a set the allowed ids, in no fixed order.  The check of an id is the check command
  on the request made of the tenant, the resolved snapshot token and schema version, the
  depth, no exclusion, the entity of the requested type with that id, the permission and
  the subject; tenant, entity type, permission, subject and depth are those of the request
  as it came.  Every run of the goroutines is finite, and none stops before Execute has
  returned.
\<close>

theorem Execute_returns_allowed_ids:
  assumes "Execute_defaults Encode command request = Inr resolved"
      and "GetUniqueEntityIDsByEntityType command (lookup_TenantId resolved) (lookup_EntityType resolved)
             (lookup_SnapToken (lookup_Metadata resolved)) = Inr ids"
      and "\<forall>eid \<in> set ids. \<exists>result. checkCommand command (check_request resolved eid) = Inr result"
  shows "(\<exists>entityIDs. Execute Encode command server_Send request (Inr entityIDs))
       \<and> (\<forall>out. Execute Encode command server_Send request out \<longrightarrow>
             (\<exists>entityIDs. out = Inr entityIDs
                \<and> mset entityIDs = mset (filter (allowed command resolved) ids)
                \<and> set entityIDs = {eid \<in> set ids. allowed command resolved eid}
                \<and> set entityIDs
                    = {eid \<in> set ids.
                         \<exists>result. checkCommand command
                                    \<lparr> check_TenantId = lookup_TenantId resolved,
                                    check_Metadata =
                                      \<lparr> check_SnapToken = lookup_SnapToken (lookup_Metadata resolved),
                                        check_SchemaVersion = lookup_SchemaVersion (lookup_Metadata resolved),
                                        check_Depth = lookup_Depth (lookup_Metadata resolved),
                                        check_Exclusion = False \<rparr>,
                                    check_Entity = \<lparr> entity_Type = lookup_EntityType resolved, entity_Id = eid \<rparr>,
                                    check_Permission = lookup_Permission resolved,
                                    check_Subject = lookup_Subject resolved \<rparr> = Inr result
                                  \<and> Can result = RESULT_ALLOWED}))
       \<and> (\<forall>eid. check_request resolved eid =
                       \<lparr> check_TenantId = lookup_TenantId resolved,
                       check_Metadata =
                         \<lparr> check_SnapToken = lookup_SnapToken (lookup_Metadata resolved),
                           check_SchemaVersion = lookup_SchemaVersion (lookup_Metadata resolved),
                           check_Depth = lookup_Depth (lookup_Metadata resolved),
                           check_Exclusion = False \<rparr>,
                       check_Entity = \<lparr> entity_Type = lookup_EntityType resolved, entity_Id = eid \<rparr>,
                       check_Permission = lookup_Permission resolved,
                       check_Subject = lookup_Subject resolved \<rparr>)
       \<and> lookup_TenantId resolved = lookup_TenantId request
       \<and> lookup_EntityType resolved = lookup_EntityType request
       \<and> lookup_Permission resolved = lookup_Permission request
       \<and> lookup_Subject resolved = lookup_Subject request
       \<and> lookup_Depth (lookup_Metadata resolved) = lookup_Depth (lookup_Metadata request)
       \<and> (\<forall>eid result. checkCommand command (check_request resolved eid) = Inr result
             \<longrightarrow> allowed command resolved eid = (Can result = RESULT_ALLOWED))
       \<and> (\<forall>eid err. checkCommand command (check_request resolved eid) = Inl err
             \<longrightarrow> \<not> allowed command resolved eid)
       \<and> wf {(s', s). step command server_Send resolved s s'}
       \<and> (\<forall>s. (step command server_Send resolved)\<^sup>*\<^sup>* (init_state (Exec_Range [])) s
               \<and> (\<forall>s'. \<not> step command server_Send resolved s s')
             \<longrightarrow> (\<exists>entityIDs. cons s = Exec_Return entityIDs))"
proof -
  have rs: "reads_succeed command resolved ids" by (rule reads_succeedI [OF assms(2,3)])
  have ui: "unique_ids command resolved = Inr ids" using rs by (simp add: reads_succeed_def)
  let ?init = "init_state (Exec_Range [])"
  have inv0: "lookup_inv command resolved ids ?init" by (rule inv_init)
  from run_to_end [OF rs inv0] obtain s' xs
    where run: "(step command server_Send resolved)\<^sup>*\<^sup>* ?init s'" and ret: "cons s' = Exec_Return xs"
    by blast
  have c1: "\<exists>entityIDs. Execute Encode command server_Send request (Inr entityIDs)"
    using Execute.Execute_response [OF assms(1) run ret] by blast
  have rq: "check_request resolved eid =
                       \<lparr> check_TenantId = lookup_TenantId resolved,
                       check_Metadata =
                         \<lparr> check_SnapToken = lookup_SnapToken (lookup_Metadata resolved),
                           check_SchemaVersion = lookup_SchemaVersion (lookup_Metadata resolved),
                           check_Depth = lookup_Depth (lookup_Metadata resolved),
                           check_Exclusion = False \<rparr>,
                       check_Entity = \<lparr> entity_Type = lookup_EntityType resolved, entity_Id = eid \<rparr>,
                       check_Permission = lookup_Permission resolved,
                       check_Subject = lookup_Subject resolved \<rparr>" for eid
    by (simp add: check_request_def)
  have al: "allowed command resolved eid
        = (\<exists>result. checkCommand command (check_request resolved eid) = Inr result
                    \<and> Can result = RESULT_ALLOWED)" for eid
    by (simp add: allowed_def split: sum.splits)
  have c2: "\<exists>entityIDs. out = Inr entityIDs
                \<and> mset entityIDs = mset (filter (allowed command resolved) ids)
                \<and> set entityIDs = {eid \<in> set ids. allowed command resolved eid}
                \<and> set entityIDs
                    = {eid \<in> set ids.
                         \<exists>result. checkCommand command
                                    \<lparr> check_TenantId = lookup_TenantId resolved,
                                    check_Metadata =
                                      \<lparr> check_SnapToken = lookup_SnapToken (lookup_Metadata resolved),
                                        check_SchemaVersion = lookup_SchemaVersion (lookup_Metadata resolved),
                                        check_Depth = lookup_Depth (lookup_Metadata resolved),
                                        check_Exclusion = False \<rparr>,
                                    check_Entity = \<lparr> entity_Type = lookup_EntityType resolved, entity_Id = eid \<rparr>,
                                    check_Permission = lookup_Permission resolved,
                                    check_Subject = lookup_Subject resolved \<rparr> = Inr result
                                  \<and> Can result = RESULT_ALLOWED}"
    if ex: "Execute Encode command server_Send request out" for out
    using ex
  proof (cases rule: Execute.cases)
    case (Execute_default_err err)
    with assms(1) show ?thesis by simp
  next
    case (Execute_response resolved' s entityIDs)
    with assms(1) have same: "resolved' = resolved" by simp
    have "lookup_inv command resolved ids s"
      using inv_reachable [OF rs] Execute_response(3) same by simp
    then have m: "mset entityIDs = mset (filter (allowed command resolved) ids)"
      using Execute_response(4) by (rule inv_returned)
    from mset_eq_setD [OF m]
    have st: "set entityIDs = {eid \<in> set ids. allowed command resolved eid}" by simp
    have st': "set entityIDs
                    = {eid \<in> set ids.
                         \<exists>result. checkCommand command
                                    \<lparr> check_TenantId = lookup_TenantId resolved,
                                    check_Metadata =
                                      \<lparr> check_SnapToken = lookup_SnapToken (lookup_Metadata resolved),
                                        check_SchemaVersion = lookup_SchemaVersion (lookup_Metadata resolved),
                                        check_Depth = lookup_Depth (lookup_Metadata resolved),
                                        check_Exclusion = False \<rparr>,
                                    check_Entity = \<lparr> entity_Type = lookup_EntityType resolved, entity_Id = eid \<rparr>,
                                    check_Permission = lookup_Permission resolved,
                                    check_Subject = lookup_Subject resolved \<rparr> = Inr result
                                  \<and> Can result = RESULT_ALLOWED}"
      unfolding st al rq ..
    from m st st' Execute_response(1) show ?thesis by simp
  qed
  have c3: "\<forall>eid result. checkCommand command (check_request resolved eid) = Inr result
             \<longrightarrow> allowed command resolved eid = (Can result = RESULT_ALLOWED)"
    by (simp add: allowed_def)
  have c3': "\<forall>eid err. checkCommand command (check_request resolved eid) = Inl err
             \<longrightarrow> \<not> allowed command resolved eid"
    by (simp add: allowed_def)
  have c5: "\<exists>entityIDs. cons s = Exec_Return entityIDs"
    if r: "(step command server_Send resolved)\<^sup>*\<^sup>* ?init s"
      and stuck: "\<forall>s'. \<not> step command server_Send resolved s s'" for s
  proof -
    have inv: "lookup_inv command resolved ids s" by (rule inv_reachable [OF rs r])
    from inv_is_Exec [OF inv] show ?thesis
    proof
      assume "\<exists>xs. cons s = Exec_Range xs"
      then obtain xs where "cons s = Exec_Range xs" ..
      from inv_progress [OF inv ui this] stuck show ?thesis by blast
    qed
  qed
  have c2': "\<forall>out. Execute Encode command server_Send request out \<longrightarrow>
             (\<exists>entityIDs. out = Inr entityIDs
                \<and> mset entityIDs = mset (filter (allowed command resolved) ids)
                \<and> set entityIDs = {eid \<in> set ids. allowed command resolved eid}
                \<and> set entityIDs
                    = {eid \<in> set ids.
                         \<exists>result. checkCommand command
                                    \<lparr> check_TenantId = lookup_TenantId resolved,
                                    check_Metadata =
                                      \<lparr> check_SnapToken = lookup_SnapToken (lookup_Metadata resolved),
                                        check_SchemaVersion = lookup_SchemaVersion (lookup_Metadata resolved),
                                        check_Depth = lookup_Depth (lookup_Metadata resolved),
                                        check_Exclusion = False \<rparr>,
                                    check_Entity = \<lparr> entity_Type = lookup_EntityType resolved, entity_Id = eid \<rparr>,
                                    check_Permission = lookup_Permission resolved,
                                    check_Subject = lookup_Subject resolved \<rparr> = Inr result
                                  \<and> Can result = RESULT_ALLOWED})"
    using c2 by (intro allI impI)
  have rq': "\<forall>eid. check_request resolved eid =
                       \<lparr> check_TenantId = lookup_TenantId resolved,
                       check_Metadata =
                         \<lparr> check_SnapToken = lookup_SnapToken (lookup_Metadata resolved),
                           check_SchemaVersion = lookup_SchemaVersion (lookup_Metadata resolved),
                           check_Depth = lookup_Depth (lookup_Metadata resolved),
                           check_Exclusion = False \<rparr>,
                       check_Entity = \<lparr> entity_Type = lookup_EntityType resolved, entity_Id = eid \<rparr>,
                       check_Permission = lookup_Permission resolved,
                       check_Subject = lookup_Subject resolved \<rparr>"
    using rq by (intro allI)
  have k1: "lookup_TenantId resolved = lookup_TenantId request"
    using assms(1) by (auto simp: Execute_defaults_def split: if_splits sum.splits)
  have k2: "lookup_EntityType resolved = lookup_EntityType request"
    using assms(1) by (auto simp: Execute_defaults_def split: if_splits sum.splits)
  have k3: "lookup_Permission resolved = lookup_Permission request"
    using assms(1) by (auto simp: Execute_defaults_def split: if_splits sum.splits)
  have k4: "lookup_Subject resolved = lookup_Subject request"
    using assms(1) by (auto simp: Execute_defaults_def split: if_splits sum.splits)
  have k5: "lookup_Depth (lookup_Metadata resolved) = lookup_Depth (lookup_Metadata request)"
    using assms(1) by (auto simp: Execute_defaults_def split: if_splits sum.splits)
  have c4: "wf {(s', s). step command server_Send resolved s s'}" by (rule wf_step)
  have c5': "\<forall>s. (step command server_Send resolved)\<^sup>*\<^sup>* (init_state (Exec_Range [])) s
               \<and> (\<forall>s'. \<not> step command server_Send resolved s s')
             \<longrightarrow> (\<exists>entityIDs. cons s = Exec_Return entityIDs)"
    using c5 by (intro allI impI) (elim conjE)
  show ?thesis by (intro conjI c1 c2' rq' k1 k2 k3 k4 k5 c3 c3' c4 c5')
qed

theorem Execute_returns_allowed_ids_witness:
  "(\<exists>entityIDs. Execute snap_Encode acl_command (\<lambda>eid. None) (docs_request [] []) (Inr entityIDs)
       \<and> mset entityIDs = mset [''1'', ''2''])
   \<and> check_request (docs_request ''3'' ''v1'') ''2''
       = \<lparr> check_TenantId = ''acme'',
           check_Metadata = \<lparr> check_SnapToken = ''3'', check_SchemaVersion = ''v1'', check_Depth = 20,
                              check_Exclusion = False \<rparr>,
           check_Entity = \<lparr> entity_Type = ''doc'', entity_Id = ''2'' \<rparr>,
           check_Permission = ''read'',
           check_Subject = \<lparr> subject_Type = ''user'', subject_Id = ''1'', subject_Relation = [] \<rparr> \<rparr>"
proof -
  have enc: "FormatUint 3 = ''3''"
    by (simp add: FormatUint_def dec.simps digit_char_def)
  have h1: "Execute_defaults snap_Encode acl_command (docs_request [] []) = Inr (docs_request ''3'' ''v1'')"
    by (simp add: Execute_defaults_def acl_command_def docs_request_def enc)
  have h2: "GetUniqueEntityIDsByEntityType acl_command (lookup_TenantId (docs_request ''3'' ''v1''))
       (lookup_EntityType (docs_request ''3'' ''v1''))
       (lookup_SnapToken (lookup_Metadata (docs_request ''3'' ''v1''))) = Inr [''1'', ''2'', ''3'']"
    by (simp add: acl_command_def docs_request_def)
  have h3: "\<forall>eid \<in> set [''1'', ''2'', ''3''].
       \<exists>result. checkCommand acl_command (check_request (docs_request ''3'' ''v1'') eid) = Inr result"
    by (simp add: acl_command_def)
  have al: "filter (allowed acl_command (docs_request ''3'' ''v1'')) [''1'', ''2'', ''3''] = [''1'', ''2'']"
    by (simp add: allowed_def acl_command_def check_request_def docs_request_def)
  note w = Execute_returns_allowed_ids [where server_Send = "\<lambda>eid. None", OF h1 h2 h3]
  from w obtain entityIDs
    where ex: "Execute snap_Encode acl_command (\<lambda>eid. None) (docs_request [] []) (Inr entityIDs)"
    by blast
  from w ex have "mset entityIDs = mset (filter (allowed acl_command (docs_request ''3'' ''v1'')) [''1'', ''2'', ''3''])"
    by blast
  with ex al have a: "\<exists>entityIDs. Execute snap_Encode acl_command (\<lambda>eid. None) (docs_request [] []) (Inr entityIDs)
       \<and> mset entityIDs = mset [''1'', ''2'']"
    by auto
  from w have "check_request (docs_request ''3'' ''v1'') ''2''
       = \<lparr> check_TenantId = lookup_TenantId (docs_request ''3'' ''v1''),
           check_Metadata =
             \<lparr> check_SnapToken = lookup_SnapToken (lookup_Metadata (docs_request ''3'' ''v1'')),
               check_SchemaVersion = lookup_SchemaVersion (lookup_Metadata (docs_request ''3'' ''v1'')),
               check_Depth = lookup_Depth (lookup_Metadata (docs_request ''3'' ''v1'')),
               check_Exclusion = False \<rparr>,
           check_Entity = \<lparr> entity_Type = lookup_EntityType (docs_request ''3'' ''v1''), entity_Id = ''2'' \<rparr>,
           check_Permission = lookup_Permission (docs_request ''3'' ''v1''),
           check_Subject = lookup_Subject (docs_request ''3'' ''v1'') \<rparr>"
    by blast
  then have b: "check_request (docs_request ''3'' ''v1'') ''2''
       = \<lparr> check_TenantId = ''acme'',
           check_Metadata = \<lparr> check_SnapToken = ''3'', check_SchemaVersion = ''v1'', check_Depth = 20,
                              check_Exclusion = False \<rparr>,
           check_Entity = \<lparr> entity_Type = ''doc'', entity_Id = ''2'' \<rparr>,
           check_Permission = ''read'',
           check_Subject = \<lparr> subject_Type = ''user'', subject_Id = ''1'', subject_Relation = [] \<rparr> \<rparr>"
    by (simp add: docs_request_def)
  from a b show ?thesis by (intro conjI)
qed

text \<open>
  C3 at two failing inputs: when GetUniqueEntityIDsByEntityType fails, and when the check
  of one id fails, Execute has no outcome: it neither returns the error nor a response,
  since \<open>parallelChecker\<close> stays at its send on \<open>errChan\<close>, from which Execute never
  receives, and so never closes \<open>resultChan\<close>.
\<close>

theorem Execute_never_returns_after_read_error:
  "unique_ids failing_command (docs_request ''3'' ''v1'') = Inl (Code ERROR_CODE_EXECUTION)
   \<and> \<not> (\<exists>out. Execute snap_Encode failing_command (\<lambda>eid. None) (docs_request [] []) out)
   \<and> checkCommand check_failing_command (check_request (docs_request ''3'' ''v1'') ''2'')
       = Inl (Code ERROR_CODE_EXECUTION)
   \<and> \<not> (\<exists>out. Execute snap_Encode check_failing_command (\<lambda>eid. None) (docs_request [] []) out)"
proof -
  have enc: "FormatUint 3 = ''3''"
    by (simp add: FormatUint_def dec.simps digit_char_def)
  have d1: "Execute_defaults snap_Encode failing_command (docs_request [] []) = Inr (docs_request ''3'' ''v1'')"
    by (simp add: Execute_defaults_def failing_command_def docs_command_def docs_request_def enc)
  have d2: "Execute_defaults snap_Encode check_failing_command (docs_request [] []) = Inr (docs_request ''3'' ''v1'')"
    by (simp add: Execute_defaults_def check_failing_command_def docs_command_def docs_request_def enc)
  have u1: "unique_ids failing_command (docs_request ''3'' ''v1'') = Inl (Code ERROR_CODE_EXECUTION)"
    by (simp add: unique_ids_def failing_command_def docs_command_def)
  have u2: "unique_ids check_failing_command (docs_request ''3'' ''v1'') = Inr [''1'', ''2'', ''3'']"
    by (simp add: unique_ids_def check_failing_command_def docs_command_def)
  have k2: "checkCommand check_failing_command (check_request (docs_request ''3'' ''v1'') ''2'')
       = Inl (Code ERROR_CODE_EXECUTION)"
    by (simp add: check_failing_command_def docs_command_def check_request_def)
  have n1: "\<not> reads_succeed failing_command (docs_request ''3'' ''v1'') ids" for ids
    using u1 by (simp add: reads_succeed_def)
  have n2: "\<not> reads_succeed check_failing_command (docs_request ''3'' ''v1'') ids" for ids
    using u2 k2 by (auto simp: reads_succeed_def)
  have e1: "\<not> (\<exists>out. Execute snap_Encode failing_command (\<lambda>eid. None) (docs_request [] []) out)"
  proof
    assume "\<exists>out. Execute snap_Encode failing_command (\<lambda>eid. None) (docs_request [] []) out"
    then obtain out where "Execute snap_Encode failing_command (\<lambda>eid. None) (docs_request [] []) out" ..
    from Execute_returns_only_after_reads [OF this] d1 n1 show False by auto
  qed
  have e2: "\<not> (\<exists>out. Execute snap_Encode check_failing_command (\<lambda>eid. None) (docs_request [] []) out)"
  proof
    assume "\<exists>out. Execute snap_Encode check_failing_command (\<lambda>eid. None) (docs_request [] []) out"
    then obtain out where "Execute snap_Encode check_failing_command (\<lambda>eid. None) (docs_request [] []) out" ..
    from Execute_returns_only_after_reads [OF this] d2 n2 show False by auto
  qed
  from u1 e1 k2 e2 show ?thesis by (intro conjI)
qed

subsection \<open>Stream and a failing read\<close>

text \<open>
  The other half of C3 holds of the code: when a read of the lookup fails, Stream returns,
  it never returns nil, and the ids it has sent before are allowed ids of the list read.
\<close>

lemma sent_inv_init: "sent_inv command request (init_state (Stream_Select []))"
  by (simp add: sent_inv_def init_state_def held_def Let_def)

lemma sent_inv_step:
  assumes "step command server_Send request s s'" "sent_inv command request s"
  shows "sent_inv command request s'"
  using assms
proof (induction rule: step.induct)
  case (get_ids s ids)
  then show ?case by (simp add: sent_inv_def held_def unique_ids_def)
next
  case (get_ids_err s err)
  then show ?case by (simp add: sent_inv_def held_def unique_ids_def)
next
  case (send_err1 s err ids sent)
  then show ?case by (simp add: sent_inv_def held_def Let_def)
next
  case (go s eid ids)
  then show ?case
    by (cases "allowed command request eid") (simp_all add: sent_inv_def held_def Let_def)
next
  case (go_end s)
  then show ?case by (simp add: sent_inv_def held_def Let_def)
next
  case (check_err s ws eid ws' err)
  then have "\<not> allowed command request eid" by (simp add: allowed_def)
  with check_err show ?case by (simp add: sent_inv_def held_def Let_def)
next
  case (check_allowed s ws eid ws' result)
  then have "allowed command request eid" by (simp add: allowed_def)
  with check_allowed show ?case by (simp add: sent_inv_def held_def Let_def)
next
  case (check_other s ws eid ws' result)
  then have "\<not> allowed command request eid" by (simp add: allowed_def)
  with check_other show ?case by (simp add: sent_inv_def held_def Let_def)
next
  case (send_id s ws eid ws')
  then show ?case by (simp add: sent_inv_def held_def Let_def)
next
  case (wait s)
  then show ?case by (simp add: sent_inv_def held_def Let_def split: option.splits)
next
  case (send_err2 s err sent)
  then show ?case by (simp add: sent_inv_def held_def Let_def)
next
  case (close s)
  then show ?case by (simp add: sent_inv_def held_def Let_def)
next
  case (exec_recv s entityIDs entityID rest)
  then show ?case by (simp add: sent_inv_def held_def Let_def)
next
  case (exec_end s entityIDs)
  then show ?case by (simp add: sent_inv_def held_def Let_def)
next
  case (stream_recv s sent eid rest)
  then show ?case by (simp add: sent_inv_def held_def Let_def)
next
  case (stream_recv_err s sent eid rest err)
  then have "held command request ids (s\<lparr>resultChan := rest, cons := Stream_Return sent (Some err)\<rparr>)
             \<subseteq># held command request ids s" for ids
    by (simp add: held_def)
  with stream_recv_err(4) show ?case
    unfolding sent_inv_def Let_def by (rule subset_mset.order_trans [rotated])
next
  case (stream_end s sent)
  then show ?case by (simp add: sent_inv_def held_def Let_def)
qed

lemma sent_inv_reachable:
  assumes "(step command server_Send request)\<^sup>*\<^sup>* (init_state (Stream_Select [])) s"
  shows "sent_inv command request s"
  using assms
proof (induction rule: rtranclp_induct)
  case base
  show ?case by (rule sent_inv_init)
next
  case (step y z)
  from sent_inv_step [OF step(2) step(3)] show ?case .
qed

lemma stream_cons_step:
  assumes "step command server_Send request s s'" "\<not> is_Exec (cons s)"
  shows "\<not> is_Exec (cons s')"
  using assms by (induction rule: step.induct) simp_all

lemma stream_cons_reachable:
  assumes "(step command server_Send request)\<^sup>*\<^sup>* (init_state (Stream_Select [])) s"
  shows "\<not> is_Exec (cons s)"
  using assms
proof (induction rule: rtranclp_induct)
  case base
  show ?case by (simp add: init_state_def)
next
  case (step y z)
  from stream_cons_step [OF step(2) step(3)] show ?case .
qed

lemma stream_recv_step:
  assumes "cons s = Stream_Select sent" "resultChan s = x # rest"
  shows "\<exists>s'. step command server_Send request s s'"
proof (cases "server_Send x")
  case None
  from step.stream_recv [where server_Send = server_Send, OF assms None] show ?thesis by blast
next
  case (Some err)
  from step.stream_recv_err [where server_Send = server_Send, OF assms Some] show ?thesis by blast
qed

lemma stream_progress:
  assumes "end_inv command request s" "cons s = Stream_Select sent"
  shows "\<exists>s'. step command server_Send request s s'"
proof (cases "resultChan s")
  case (Cons x rest)
  from stream_recv_step [OF assms(2) Cons] show ?thesis .
next
  case Nil
  show ?thesis
  proof (cases "workers s")
    case (Cons w ws)
    with Nil show ?thesis using worker_step [of s w ws] by simp
  next
    case no_workers: Nil
    show ?thesis
    proof (cases "prod s")
      case P_GetIDs
      show ?thesis
      proof (cases "GetUniqueEntityIDsByEntityType command (lookup_TenantId request)
                      (lookup_EntityType request) (lookup_SnapToken (lookup_Metadata request))")
        case (Inl err)
        from step.get_ids_err [where command = command and request = request, OF P_GetIDs Inl]
        show ?thesis by blast
      next
        case (Inr ids)
        from step.get_ids [where command = command and request = request, OF P_GetIDs Inr]
        show ?thesis by blast
      qed
    next
      case (P_SendErr1 err rest)
      from step.send_err1 [OF P_SendErr1 assms(2)] show ?thesis by blast
    next
      case (P_Go rest)
      show ?thesis
      proof (cases rest)
        case Nil
        with P_Go step.go_end show ?thesis by blast
      next
        case (Cons eid rest')
        with P_Go no_workers step.go [of s eid rest'] show ?thesis by auto
      qed
    next
      case P_Wait
      from step.wait [OF P_Wait no_workers] show ?thesis by blast
    next
      case (P_SendErr2 err)
      from step.send_err2 [OF P_SendErr2 assms(2)] show ?thesis by blast
    next
      case P_Close
      from step.close [OF P_Close] show ?thesis by blast
    next
      case P_Done
      with assms(1) have "closed s" by (simp add: end_inv_def)
      from step.stream_end [OF assms(2) Nil this] show ?thesis by blast
    qed
  qed
qed

lemma stream_run_to_end:
  "end_inv command request s \<Longrightarrow> \<not> is_Exec (cons s)
   \<Longrightarrow> \<exists>s' sent err. (step command server_Send request)\<^sup>*\<^sup>* s s' \<and> cons s' = Stream_Return sent err"
proof (induction "weight command request s" arbitrary: s rule: less_induct)
  case less
  show ?case
  proof (cases "cons s")
    case (Exec_Range xs)
    with less.prems(2) show ?thesis by simp
  next
    case (Exec_Return xs)
    with less.prems(2) show ?thesis by simp
  next
    case (Stream_Return sent err)
    then show ?thesis by blast
  next
    case (Stream_Select sent)
    from stream_progress [OF less.prems(1) Stream_Select]
    obtain s1 where s1: "step command server_Send request s s1" by blast
    have e1: "end_inv command request s1" by (rule end_inv_step [OF s1 less.prems(1)])
    have x1: "\<not> is_Exec (cons s1)" by (rule stream_cons_step [OF s1 less.prems(2)])
    from less.hyps [OF step_decreases [OF s1] e1 x1] obtain s' sent' err
      where "(step command server_Send request)\<^sup>*\<^sup>* s1 s'" "cons s' = Stream_Return sent' err" by blast
    with s1 show ?thesis by (meson converse_rtranclp_into_rtranclp)
  qed
qed

lemma Stream_returns_read_error:
  assumes "Stream_defaults Encode command request = Inr resolved"
      and "\<forall>ids. \<not> reads_succeed command resolved ids"
  shows "(\<exists>sent err. Stream Encode command server_Send request (sent, Some err))
       \<and> (\<forall>sent err. Stream Encode command server_Send request (sent, err) \<longrightarrow>
             err \<noteq> None
             \<and> mset sent \<subseteq># mset (filter (allowed command resolved)
                   (case unique_ids command resolved of Inl e \<Rightarrow> [] | Inr ids \<Rightarrow> ids)))"
proof -
  let ?init = "init_state (Stream_Select [])"
  have failed: "err \<noteq> None"
    if "(step command server_Send resolved)\<^sup>*\<^sup>* ?init s" "cons s = Stream_Return sent err" for s sent err
  proof
    assume "err = None"
    with that(2) have "normal_end (cons s)" by simp
    from normal_end_reads_succeed [OF _ that(1) this] assms(2) show False by simp
  qed
  have valid: "mset sent \<subseteq># mset (filter (allowed command resolved)
                   (case unique_ids command resolved of Inl e \<Rightarrow> [] | Inr ids \<Rightarrow> ids))"
    if "(step command server_Send resolved)\<^sup>*\<^sup>* ?init s" "cons s = Stream_Return sent err" for s sent err
  proof -
    from sent_inv_reachable [OF that(1)]
    have "held command resolved (case unique_ids command resolved of Inl e \<Rightarrow> [] | Inr ids \<Rightarrow> ids) s
          \<subseteq># mset (filter (allowed command resolved)
                   (case unique_ids command resolved of Inl e \<Rightarrow> [] | Inr ids \<Rightarrow> ids))"
      by (simp add: sent_inv_def Let_def)
    moreover have "mset sent \<subseteq># held command resolved
          (case unique_ids command resolved of Inl e \<Rightarrow> [] | Inr ids \<Rightarrow> ids) s"
      using that(2) by (simp add: held_def)
    ultimately show ?thesis by (rule subset_mset.order_trans [rotated])
  qed
  have e0: "end_inv command resolved ?init" by (rule end_inv_init) simp
  have x0: "\<not> is_Exec (cons ?init)" by (simp add: init_state_def)
  from stream_run_to_end [OF e0 x0] obtain s' sent err
    where run: "(step command server_Send resolved)\<^sup>*\<^sup>* ?init s'" and ret: "cons s' = Stream_Return sent err"
    by blast
  from failed [OF run ret] obtain e where "err = Some e" by auto
  with Stream.Stream_return [OF assms(1) run ret]
  have ex: "\<exists>sent err. Stream Encode command server_Send request (sent, Some err)" by blast
  have all: "err \<noteq> None \<and> mset sent \<subseteq># mset (filter (allowed command resolved)
                   (case unique_ids command resolved of Inl e \<Rightarrow> [] | Inr ids \<Rightarrow> ids))"
    if st: "Stream Encode command server_Send request (sent, err)" for sent err
    using st
  proof (cases rule: Stream.cases)
    case (Stream_default_err e)
    with assms(1) show ?thesis by simp
  next
    case (Stream_return resolved' s)
    with assms(1) have "resolved' = resolved" by simp
    with Stream_return failed valid show ?thesis by blast
  qed
  from ex all show ?thesis by blast
qed

section \<open>Compiling an action expression\<close>

lemma parse_or_paren_and:
  "parse [IDENT a, KW_OR, LPAREN, IDENT b, KW_AND, IDENT c, RPAREN]
     = Some (Infix (Ident False [a]) OR (Paren (Infix (Ident False [b]) AND (Ident False [c]))))"
  by (simp add: parse_def eval_nat_numeral)

lemma compile_atom_owned: "owns e a \<Longrightarrow> compile_atom schema e neg [a] = Inr (Leaf neg (ComputedUserSet a))"
  by (simp add: compile_atom_def)

lemma ident_char_plain:
  "is_ident_char c \<Longrightarrow> \<not> is_space c \<and> c \<noteq> CHR ''('' \<and> c \<noteq> CHR '')'' \<and> c \<noteq> CHR ''.''"
  by (auto simp: is_ident_char_def is_space_def Let_def)

lemma tokenize_space: "tokenize (CHR '' '' # cs) = tokenize cs"
  by (subst tokenize.simps) (simp add: is_space_def)

lemma tokenize_lparen: "tokenize (CHR ''('' # cs) = LPAREN # tokenize cs"
  by (subst tokenize.simps) (simp add: is_space_def)

lemma tokenize_rparen: "tokenize (CHR '')'' # cs) = RPAREN # tokenize cs"
  by (subst tokenize.simps) (simp add: is_space_def)

lemma tokenize_word:
  assumes "w \<noteq> []" "list_all is_ident_char w" "rest = [] \<or> \<not> is_ident_char (hd rest)"
  shows "tokenize (w @ rest) = word_token w # tokenize rest"
proof -
  from assms(1) obtain c w' where w: "w = c # w'" by (cases w) auto
  with assms(2) have c: "is_ident_char c" and w': "list_all is_ident_char w'" by simp_all
  have tw: "takeWhile is_ident_char (w' @ rest) = w'"
    using w' assms(3) by (cases rest) (auto simp: list_all_iff takeWhile_append2 takeWhile_eq_all_conv)
  have dw: "dropWhile is_ident_char (w' @ rest) = rest"
    using w' assms(3) by (cases rest) (auto simp: list_all_iff dropWhile_append2)
  have "tokenize (c # (w' @ rest))
        = word_token (c # takeWhile is_ident_char (w' @ rest)) # tokenize (dropWhile is_ident_char (w' @ rest))"
    using c ident_char_plain [OF c] by (subst tokenize.simps) simp
  then show ?thesis by (simp add: w tw dw)
qed

lemma word_token_identifier: "is_identifier w \<Longrightarrow> word_token w = IDENT w"
  by (simp add: is_identifier_def word_token_def)

lemma tokenize_or_paren_and:
  assumes "is_identifier a" "is_identifier b" "is_identifier c"
  shows "tokenize (a @ '' or ('' @ b @ '' and '' @ c @ '')'')
         = [IDENT a, KW_OR, LPAREN, IDENT b, KW_AND, IDENT c, RPAREN]"
proof -
  have sp: "\<not> is_ident_char CHR '' ''" and rp: "\<not> is_ident_char CHR '')''"
    by (simp_all add: is_ident_char_def)
  have or_w: "list_all is_ident_char ''or''" and and_w: "list_all is_ident_char ''and''"
    by (simp_all add: is_ident_char_def)
  have t7: "tokenize '')'' = [RPAREN]" by (simp add: tokenize_rparen tokenize.simps(1))
  have t6: "tokenize (c @ '')'') = [IDENT c, RPAREN]"
    using assms(3) tokenize_word [of c "'')''"] rp
    by (simp add: is_identifier_def word_token_identifier t7)
  have t5: "tokenize (''and'' @ CHR '' '' # c @ '')'') = [KW_AND, IDENT c, RPAREN]"
    using tokenize_word [of "''and''" "CHR '' '' # c @ '')''"] and_w sp
    by (simp add: word_token_def tokenize_space t6)
  have t4: "tokenize (b @ CHR '' '' # ''and'' @ CHR '' '' # c @ '')'') = [IDENT b, KW_AND, IDENT c, RPAREN]"
    using assms(2) tokenize_word [of b "CHR '' '' # ''and'' @ CHR '' '' # c @ '')''"] sp t5
    by (simp add: is_identifier_def word_token_identifier tokenize_space)
  have t3: "tokenize (''or'' @ CHR '' '' # CHR ''('' # b @ CHR '' '' # ''and'' @ CHR '' '' # c @ '')'')
        = [KW_OR, LPAREN, IDENT b, KW_AND, IDENT c, RPAREN]"
    using tokenize_word [of "''or''" "CHR '' '' # CHR ''('' # b @ CHR '' '' # ''and'' @ CHR '' '' # c @ '')''"] or_w sp t4
    by (simp add: word_token_def tokenize_space tokenize_lparen)
  have t1: "tokenize (a @ CHR '' '' # ''or'' @ CHR '' '' # CHR ''('' # b @ CHR '' '' # ''and'' @ CHR '' '' # c @ '')'')
        = [IDENT a, KW_OR, LPAREN, IDENT b, KW_AND, IDENT c, RPAREN]"
    using assms(1) tokenize_word [of a "CHR '' '' # ''or'' @ CHR '' '' # CHR ''('' # b @ CHR '' '' # ''and'' @ CHR '' '' # c @ '')''"] sp t3
    by (simp add: is_identifier_def word_token_identifier tokenize_space)
  then show ?thesis by simp
qed

lemma relation_owned: "a \<in> fst ` set (relation_statements e) \<Longrightarrow> owns e a"
  by (simp add: owns_def)

lemma compile_or_paren_and_ast:
  assumes "owns e a" and "owns e b" and "owns e c"
  shows "compile schema e (Infix (Ident False [a]) OR (Paren (Infix (Ident False [b]) AND (Ident False [c]))))
           = Inr (Rewrite OPERATION_UNION
                    [Leaf False (ComputedUserSet a),
                     Rewrite OPERATION_INTERSECTION
                       [Leaf False (ComputedUserSet b), Leaf False (ComputedUserSet c)]])"
  by (simp add: compile_atom_owned assms)

lemma compile_or_or_flattens:
  assumes "owns e a" and "owns e b" and "owns e c"
  shows "parse [IDENT a, KW_OR, IDENT b, KW_OR, IDENT c]
           = Some (Infix (Infix (Ident False [a]) OR (Ident False [b])) OR (Ident False [c]))
       \<and> compile schema e (Infix (Infix (Ident False [a]) OR (Ident False [b])) OR (Ident False [c]))
           = Inr (Rewrite OPERATION_UNION
                    [Leaf False (ComputedUserSet a), Leaf False (ComputedUserSet b),
                     Leaf False (ComputedUserSet c)])"
  by (simp add: parse_def eval_nat_numeral compile_atom_owned assms)

text \<open>
  C6.  For identifiers \<open>a\<close>, \<open>b\<close>, \<open>c\<close> that are relations of the current entity, the
  action expression \<open>a or (b and c)\<close> lexes to seven tokens, parses to the infix
  expression of \<open>a\<close>, \<open>or\<close> and the parenthesized \<open>b and c\<close>, and compiles to the UNION
  rewrite of the computed user set of \<open>a\<close> and of the INTERSECTION rewrite of the computed
  user sets of \<open>b\<close> and \<open>c\<close>: the intersection stays one child of the union.
\<close>

theorem compile_or_paren_and:
  assumes "is_identifier a" and "is_identifier b" and "is_identifier c"
      and "a \<in> fst ` set (relation_statements e)"
      and "b \<in> fst ` set (relation_statements e)"
      and "c \<in> fst ` set (relation_statements e)"
  shows "tokenize (a @ '' or ('' @ b @ '' and '' @ c @ '')'')
           = [IDENT a, KW_OR, LPAREN, IDENT b, KW_AND, IDENT c, RPAREN]
       \<and> parse [IDENT a, KW_OR, LPAREN, IDENT b, KW_AND, IDENT c, RPAREN]
           = Some (Infix (Ident False [a]) OR (Paren (Infix (Ident False [b]) AND (Ident False [c]))))
       \<and> compile_action schema e (a @ '' or ('' @ b @ '' and '' @ c @ '')'')
           = Inr (Rewrite OPERATION_UNION
                    [Leaf False (ComputedUserSet a),
                     Rewrite OPERATION_INTERSECTION
                       [Leaf False (ComputedUserSet b), Leaf False (ComputedUserSet c)]])"
proof -
  have t: "tokenize (a @ '' or ('' @ b @ '' and '' @ c @ '')'')
           = [IDENT a, KW_OR, LPAREN, IDENT b, KW_AND, IDENT c, RPAREN]"
    by (rule tokenize_or_paren_and [OF assms(1-3)])
  have c: "compile schema e (Infix (Ident False [a]) OR (Paren (Infix (Ident False [b]) AND (Ident False [c]))))
           = Inr (Rewrite OPERATION_UNION
                    [Leaf False (ComputedUserSet a),
                     Rewrite OPERATION_INTERSECTION
                       [Leaf False (ComputedUserSet b), Leaf False (ComputedUserSet c)]])"
    by (rule compile_or_paren_and_ast) (rule relation_owned, rule assms)+
  have "compile_action schema e (a @ '' or ('' @ b @ '' and '' @ c @ '')'')
           = Inr (Rewrite OPERATION_UNION
                    [Leaf False (ComputedUserSet a),
                     Rewrite OPERATION_INTERSECTION
                       [Leaf False (ComputedUserSet b), Leaf False (ComputedUserSet c)]])"
    unfolding compile_action_def t parse_or_paren_and using c by simp
  with t parse_or_paren_and show ?thesis by (intro conjI)
qed

theorem compile_or_paren_and_witness:
  "compile_action [user_entity, organization_entity] organization_entity ''owner or (admin and owner)''
     = Inr (Rewrite OPERATION_UNION
              [Leaf False (ComputedUserSet ''owner''),
               Rewrite OPERATION_INTERSECTION
                 [Leaf False (ComputedUserSet ''admin''), Leaf False (ComputedUserSet ''owner'')]])"
proof -
  have io: "is_identifier ''owner''" by (simp add: is_identifier_def is_ident_char_def)
  have ia: "is_identifier ''admin''" by (simp add: is_identifier_def is_ident_char_def)
  have o: "''owner'' \<in> fst ` set (relation_statements organization_entity)"
    by (simp add: organization_entity_def)
  have a: "''admin'' \<in> fst ` set (relation_statements organization_entity)"
    by (simp add: organization_entity_def)
  from compile_or_paren_and [OF io ia io o a o, of "[user_entity, organization_entity]"]
  show ?thesis by simp
qed

end
